theory Spec2Isabelle
  imports Main "HOL-Library.Sublist"
begin

section \<open>Configuration and the hostname filter (package config)\<close>

text \<open>
  A compiled Go regular expression is used by the program only through
  \<open>MatchString\<close>; it is modelled by that predicate. A nil \<open>*regexp.Regexp\<close> is
  \<open>None\<close>.
\<close>

datatype Regexp = Regexp (MatchString: "string \<Rightarrow> bool")

record Config =
  TechnitiumURL :: string
  TechnitiumToken :: string
  TechnitiumZone :: string
  TargetIP :: string
  TTL :: int
  IncludePattern :: "Regexp option"
  ExcludePattern :: "Regexp option"
  DockerHost :: string
  DockerMode :: string
  ReconcileOnStartup :: bool
  DryRun :: bool
  HealthPort :: int
  LogLevel :: string

definition MatchesFilters :: "Config \<Rightarrow> string \<Rightarrow> bool" where
  "MatchesFilters c hostname =
     (if IncludePattern c \<noteq> None \<and> \<not> MatchString (the (IncludePattern c)) hostname then False
      else if ExcludePattern c \<noteq> None \<and> MatchString (the (ExcludePattern c)) hostname then False
      else True)"

section \<open>The DNS gateway and its client (package technitium)\<close>

text \<open>
  \<open>Record\<close> and \<open>RData\<close> are the client's JSON structs; the fields of \<open>Record\<close>
  carry the prefix \<open>Rec\<close> because \<open>Name\<close>, \<open>Type\<close> and \<open>TTL\<close> are also fields of
  other structs of the program.
\<close>

record RData =
  IPAddress :: string
  Value :: string

record Record =
  RecName :: string
  RecType :: string
  RecTTL :: int
  RecData :: RData
  Disabled :: bool

text \<open>
  The three requests the client sends: \<open>/api/zones/records/get\<close> (zone, domain),
  \<open>/api/zones/records/add\<close> (zone, domain, ipAddress, ttl; type A) and
  \<open>/api/zones/records/delete\<close> (zone, domain, ipAddress; type A).
\<close>

datatype Request =
    RecordsGet string string
  | RecordsAdd string string string int
  | RecordsDelete string string string

text \<open>
  What happens to one request. \<open>RequestFails e\<close>: \<open>doRequest\<close> returns the error
  \<open>e\<close> (request creation, transport, body, status code, envelope or API error) and the
  zone is untouched. \<open>MalformedRecords e\<close>: the request is served, but the
  \<open>response\<close> member of the envelope does not unmarshal into \<open>recordsResponse\<close>
  (error \<open>e\<close>). \<open>Succeeds\<close>: the request is served and answered.
\<close>

datatype Outcome = Succeeds | RequestFails string | MalformedRecords string

datatype RawMessage = RecordsJSON "Record list" | Undecodable string

datatype Level = Debug | Info | Error

text \<open>
  The world outside the process: the records the DNS server holds for each
  (zone, domain); the outcomes of the requests still to come, in order (an exhausted
  list means success); every request sent so far with its outcome, oldest first; and
  the log lines written (level and message; attributes are left out). Metrics counters
  and wall-clock durations are not modelled.
\<close>

record World =
  zones :: "string \<times> string \<Rightarrow> Record list"
  faults :: "Outcome list"
  calls :: "(Request \<times> Outcome) list"
  logs :: "(Level \<times> string) list"

definition slog :: "Level \<Rightarrow> string \<Rightarrow> World \<Rightarrow> World" where
  "slog lv msg w = w\<lparr>logs := logs w @ [(lv, msg)]\<rparr>"

text \<open>
  The server's side of the gateway contract: a served add stores an enabled A record
  for the domain, a served delete removes the A records of the domain with that
  address, a get changes nothing and answers with the records of the domain.
\<close>

definition serve :: "Request \<Rightarrow> (string \<times> string \<Rightarrow> Record list) \<Rightarrow> (string \<times> string \<Rightarrow> Record list)" where
  "serve req zs =
     (case req of
        RecordsGet zone domain \<Rightarrow> zs
      | RecordsAdd zone domain ip ttl \<Rightarrow>
          zs((zone, domain) := zs (zone, domain) @
            [\<lparr>RecName = domain, RecType = ''A'', RecTTL = ttl,
              RecData = \<lparr>IPAddress = ip, Value = []\<rparr>, Disabled = False\<rparr>])
      | RecordsDelete zone domain ip \<Rightarrow>
          zs((zone, domain) :=
            filter (\<lambda>r. \<not> (RecType r = ''A'' \<and> IPAddress (RecData r) = ip)) (zs (zone, domain))))"

definition answer :: "Request \<Rightarrow> (string \<times> string \<Rightarrow> Record list) \<Rightarrow> Record list" where
  "answer req zs = (case req of RecordsGet zone domain \<Rightarrow> zs (zone, domain) | _ \<Rightarrow> [])"

text \<open>The outcome of the next request sent.\<close>

definition nextOutcome :: "World \<Rightarrow> Outcome" where
  "nextOutcome w = (case faults w of [] \<Rightarrow> Succeeds | x # _ \<Rightarrow> x)"

text \<open>The outcome of the request sent after \<open>n\<close> others.\<close>

definition outcomeAt :: "nat \<Rightarrow> World \<Rightarrow> Outcome" where
  "outcomeAt n w = (if n < length (faults w) then faults w ! n else Succeeds)"

definition doRequest :: "Request \<Rightarrow> World \<Rightarrow> (string + RawMessage) \<times> World" where
  "doRequest req w0 =
     (let w = slog Debug ''making API request'' w0;
          out = nextOutcome w;
          w1 = w\<lparr>faults := tl (faults w), calls := calls w @ [(req, out)]\<rparr>
      in case out of
           RequestFails e \<Rightarrow> (Inl e, w1)
         | MalformedRecords e \<Rightarrow> (Inr (Undecodable e), w1\<lparr>zones := serve req (zones w1)\<rparr>)
         | Succeeds \<Rightarrow>
             (Inr (RecordsJSON (answer req (zones w1))), w1\<lparr>zones := serve req (zones w1)\<rparr>))"

definition AddARecord :: "string \<Rightarrow> string \<Rightarrow> string \<Rightarrow> int \<Rightarrow> World \<Rightarrow> string option \<times> World" where
  "AddARecord zone hostname ip ttl w =
     (case doRequest (RecordsAdd zone hostname ip ttl) w of
        (Inl err, w1) \<Rightarrow> (Some (''adding A record for '' @ hostname @ '': '' @ err), w1)
      | (Inr _, w1) \<Rightarrow> (None, slog Info ''added A record'' w1))"

definition DeleteARecord :: "string \<Rightarrow> string \<Rightarrow> string \<Rightarrow> World \<Rightarrow> string option \<times> World" where
  "DeleteARecord zone hostname ip w =
     (case doRequest (RecordsDelete zone hostname ip) w of
        (Inl err, w1) \<Rightarrow> (Some (''deleting A record for '' @ hostname @ '': '' @ err), w1)
      | (Inr _, w1) \<Rightarrow> (None, slog Info ''deleted A record'' w1))"

definition GetRecords :: "string \<Rightarrow> string \<Rightarrow> World \<Rightarrow> (string + Record list) \<times> World" where
  "GetRecords zone hostname w =
     (case doRequest (RecordsGet zone hostname) w of
        (Inl err, w1) \<Rightarrow> (Inl (''getting records for '' @ hostname @ '': '' @ err), w1)
      | (Inr (Undecodable e), w1) \<Rightarrow> (Inl (''parsing records response: '' @ e), w1)
      | (Inr (RecordsJSON records), w1) \<Rightarrow> (Inr records, slog Debug ''retrieved records'' w1))"

text \<open>The loop of \<open>HasARecord\<close> over the records returned.\<close>

fun HasARecord_loop :: "string \<Rightarrow> Record list \<Rightarrow> bool" where
  "HasARecord_loop ip [] = False"
| "HasARecord_loop ip (r # records) =
     (if RecType r = ''A'' \<and> IPAddress (RecData r) = ip then True
      else HasARecord_loop ip records)"

definition HasARecord :: "string \<Rightarrow> string \<Rightarrow> string \<Rightarrow> World \<Rightarrow> (string + bool) \<times> World" where
  "HasARecord zone hostname ip w =
     (case GetRecords zone hostname w of
        (Inl err, w1) \<Rightarrow> (Inl err, w1)
      | (Inr records, w1) \<Rightarrow> (Inr (HasARecord_loop ip records), w1))"

text \<open>\<open>Inr True\<close>: a record was created; \<open>Inr False\<close>: it already existed.\<close>

definition EnsureARecord :: "string \<Rightarrow> string \<Rightarrow> string \<Rightarrow> int \<Rightarrow> World \<Rightarrow> (string + bool) \<times> World" where
  "EnsureARecord zone hostname ip ttl w =
     (case HasARecord zone hostname ip w of
        (Inl err, w1) \<Rightarrow> (Inl err, w1)
      | (Inr exists, w1) \<Rightarrow>
          if exists then (Inr False, slog Debug ''A record already exists'' w1)
          else (case AddARecord zone hostname ip ttl w1 of
                  (Some err, w2) \<Rightarrow> (Inl err, w2)
                | (None, w2) \<Rightarrow> (Inr True, w2)))"

section \<open>The reconciler (package reconciler)\<close>

text \<open>
  A workload's label map is kept as the list of its entries; the label parser is used
  only through \<open>ExtractHosts\<close> and is the field \<open>parser\<close> of the reconciler. The
  answer of the platform to \<open>ListWorkloads\<close> is an argument of \<open>Reconcile\<close>.
  Counters are Go ints; they count list elements and are modelled as integers.
  The field \<open>Duration\<close> of the result is left out. Each entry point is modelled as
  one sequential run; the mutex it holds from entry to return is not part of the model.
\<close>

record Workload =
  ID :: string
  Name :: string
  Labels :: "(string \<times> string) list"
  Type :: string

record ReconcileResult =
  WorkloadsScanned :: int
  HostnamesFound :: int
  HostnamesFiltered :: int
  RecordsCreated :: int
  RecordsExisted :: int
  Errors :: "string list"

record Reconciler =
  cfg :: Config
  parser :: "(string \<times> string) list \<Rightarrow> string list"

definition emptyResult :: ReconcileResult where
  "emptyResult = \<lparr>WorkloadsScanned = 0, HostnamesFound = 0, HostnamesFiltered = 0,
     RecordsCreated = 0, RecordsExisted = 0, Errors = []\<rparr>"

definition ensureRecord ::
  "Reconciler \<Rightarrow> string \<Rightarrow> string \<Rightarrow> ReconcileResult \<Rightarrow> World \<Rightarrow> string option \<times> ReconcileResult \<times> World" where
  "ensureRecord r workloadName hostname result w =
     (if \<not> MatchesFilters (cfg r) hostname then (None, result, slog Debug ''hostname filtered out'' w)
      else
        let result1 = result\<lparr>HostnamesFiltered := HostnamesFiltered result + 1\<rparr> in
        if DryRun (cfg r)
        then (None, result1\<lparr>RecordsCreated := RecordsCreated result1 + 1\<rparr>,
              slog Info ''DRY RUN: would ensure A record'' w)
        else
          (case EnsureARecord (TechnitiumZone (cfg r)) hostname (TargetIP (cfg r)) (TTL (cfg r)) w of
             (Inl err, w1) \<Rightarrow> (Some (''creating A record: '' @ err), result1, w1)
           | (Inr created, w1) \<Rightarrow>
               if created
               then (None, result1\<lparr>RecordsCreated := RecordsCreated result1 + 1\<rparr>,
                     slog Info ''created A record'' w1)
               else (None, result1\<lparr>RecordsExisted := RecordsExisted result1 + 1\<rparr>,
                     slog Debug ''A record already exists'' w1)))"

text \<open>The loop of \<open>processWorkload\<close> over the hosts: it returns at the first error.\<close>

fun processWorkload_loop ::
  "Reconciler \<Rightarrow> string \<Rightarrow> string list \<Rightarrow> ReconcileResult \<Rightarrow> World \<Rightarrow> string option \<times> ReconcileResult \<times> World" where
  "processWorkload_loop r workloadName [] result w = (None, result, w)"
| "processWorkload_loop r workloadName (host # hosts) result w =
     (case ensureRecord r workloadName host result w of
        (Some err, result1, w1) \<Rightarrow> (Some (''ensuring record for '' @ host @ '': '' @ err), result1, w1)
      | (None, result1, w1) \<Rightarrow> processWorkload_loop r workloadName hosts result1 w1)"

definition processWorkload ::
  "Reconciler \<Rightarrow> Workload \<Rightarrow> ReconcileResult \<Rightarrow> World \<Rightarrow> string option \<times> ReconcileResult \<times> World" where
  "processWorkload r workload result w =
     (let hosts = parser r (Labels workload) in
      if length hosts = 0 then (None, result, slog Debug ''no traefik hosts found'' w)
      else processWorkload_loop r (Name workload) hosts
             (result\<lparr>HostnamesFound := HostnamesFound result + int (length hosts)\<rparr>)
             (slog Debug ''found traefik hosts'' w))"

text \<open>The loop of \<open>Reconcile\<close> over the workloads.\<close>

fun Reconcile_loop :: "Reconciler \<Rightarrow> Workload list \<Rightarrow> ReconcileResult \<Rightarrow> World \<Rightarrow> ReconcileResult \<times> World" where
  "Reconcile_loop r [] result w = (result, w)"
| "Reconcile_loop r (workload # workloads) result w =
     (case processWorkload r workload result w of
        (Some err, result1, w1) \<Rightarrow>
          Reconcile_loop r workloads
            (result1\<lparr>Errors := Errors result1 @ [''workload '' @ Name workload @ '': '' @ err]\<rparr>)
            (slog Error ''failed to process workload'' w1)
      | (None, result1, w1) \<Rightarrow> Reconcile_loop r workloads result1 w1)"

text \<open>
  \<open>Reconcile\<close> returns \<open>(nil, err)\<close> as \<open>Inl err\<close> and \<open>(result, nil)\<close> as
  \<open>Inr result\<close>.
\<close>

definition Reconcile :: "Reconciler \<Rightarrow> string + Workload list \<Rightarrow> World \<Rightarrow> (string + ReconcileResult) \<times> World" where
  "Reconcile r listing w0 =
     (let w = slog Info ''starting reconciliation'' w0 in
      case listing of
        Inl err \<Rightarrow> (Inl (''listing workloads: '' @ err), w)
      | Inr workloads \<Rightarrow>
          (case Reconcile_loop r workloads
                  (emptyResult\<lparr>WorkloadsScanned := int (length workloads)\<rparr>)
                  (slog Debug ''scanned workloads'' w) of
             (result, w1) \<Rightarrow> (Inr result, slog Info ''reconciliation complete'' w1)))"

fun ReconcileHostnames_loop ::
  "Reconciler \<Rightarrow> string \<Rightarrow> string list \<Rightarrow> ReconcileResult \<Rightarrow> World \<Rightarrow> ReconcileResult \<times> World" where
  "ReconcileHostnames_loop r workloadName [] result w = (result, w)"
| "ReconcileHostnames_loop r workloadName (hostname # hostnames) result w =
     (case ensureRecord r workloadName hostname result w of
        (Some err, result1, w1) \<Rightarrow>
          ReconcileHostnames_loop r workloadName hostnames
            (result1\<lparr>Errors := Errors result1 @ [''hostname '' @ hostname @ '': '' @ err]\<rparr>)
            (slog Error ''failed to ensure record'' w1)
      | (None, result1, w1) \<Rightarrow> ReconcileHostnames_loop r workloadName hostnames result1 w1)"

text \<open>The second component is the returned error, which is always nil.\<close>

definition ReconcileHostnames ::
  "Reconciler \<Rightarrow> string \<Rightarrow> string list \<Rightarrow> World \<Rightarrow> (ReconcileResult \<times> string option) \<times> World" where
  "ReconcileHostnames r workloadName hostnames w =
     (case ReconcileHostnames_loop r workloadName hostnames
             (emptyResult\<lparr>HostnamesFound := int (length hostnames)\<rparr>)
             (slog Debug ''reconciling specific hostnames'' w) of
        (result, w1) \<Rightarrow> ((result, None), w1))"

fun DeleteHostnames_loop :: "Reconciler \<Rightarrow> string \<Rightarrow> string list \<Rightarrow> int \<Rightarrow> World \<Rightarrow> int \<times> World" where
  "DeleteHostnames_loop r workloadName [] deleted w = (deleted, w)"
| "DeleteHostnames_loop r workloadName (hostname # hostnames) deleted w =
     (if \<not> MatchesFilters (cfg r) hostname then DeleteHostnames_loop r workloadName hostnames deleted w
      else if DryRun (cfg r)
      then DeleteHostnames_loop r workloadName hostnames (deleted + 1)
             (slog Info ''DRY RUN: would delete A record'' w)
      else
        (case HasARecord (TechnitiumZone (cfg r)) hostname (TargetIP (cfg r)) w of
           (Inl err, w1) \<Rightarrow>
             DeleteHostnames_loop r workloadName hostnames deleted
               (slog Error ''failed to check record existence'' w1)
         | (Inr exists, w1) \<Rightarrow>
             if \<not> exists
             then DeleteHostnames_loop r workloadName hostnames deleted
                    (slog Debug ''A record does not exist, skipping delete'' w1)
             else
               (case DeleteARecord (TechnitiumZone (cfg r)) hostname (TargetIP (cfg r)) w1 of
                  (Some err, w2) \<Rightarrow>
                    DeleteHostnames_loop r workloadName hostnames deleted
                      (slog Error ''failed to delete A record'' w2)
                | (None, w2) \<Rightarrow>
                    DeleteHostnames_loop r workloadName hostnames (deleted + 1)
                      (slog Info ''deleted A record'' w2))))"

text \<open>The result is the pair \<open>(deleted, err)\<close> of the Go function.\<close>

definition DeleteHostnames ::
  "Reconciler \<Rightarrow> string \<Rightarrow> string list \<Rightarrow> World \<Rightarrow> (int \<times> string option) \<times> World" where
  "DeleteHostnames r workloadName hostnames w =
     (case DeleteHostnames_loop r workloadName hostnames 0 (slog Debug ''deleting hostnames'' w) of
        (deleted, w1) \<Rightarrow> ((deleted, None), w1))"

section \<open>The event watcher (package watcher)\<close>

text \<open>
  A Docker event: its type (\<open>service\<close>, \<open>container\<close>, ...), its action, and the
  actor with its identifier and attribute map (a missing key reads as the empty
  string in Go).
\<close>

record Actor =
  ActorID :: string
  Attributes :: "string \<rightharpoonup> string"

record Message =
  EvType :: string
  Action :: string
  Actor :: Actor

datatype Mode = ModeSwarm | ModeStandalone

record Watcher =
  dockerMode :: Mode
  reconciler :: Reconciler
  debounceInterval :: int

text \<open>
  Both handlers start by taking the \<open>name\<close> attribute and, when it is empty, the
  first 12 bytes of the actor's identifier; \<open>ID[:12]\<close> panics on a shorter
  identifier, which is the result \<open>None\<close> here and in the handlers.
\<close>

definition actorName :: "Message \<Rightarrow> string option" where
  "actorName event =
     (let name = (case Attributes (Actor event) ''name'' of None \<Rightarrow> [] | Some v \<Rightarrow> v) in
      if name = []
      then (if length (ActorID (Actor event)) < 12 then None
            else Some (take 12 (ActorID (Actor event))))
      else Some name)"

definition handleServiceEvent :: "Message \<Rightarrow> World \<Rightarrow> World option" where
  "handleServiceEvent event w =
     (case actorName event of
        None \<Rightarrow> None
      | Some serviceName \<Rightarrow>
          if Action event = ''create'' \<or> Action event = ''update''
          then Some (slog Info ''service event received'' w)
          else if Action event = ''remove''
          then Some (slog Debug ''orphan cleanup disabled - DNS records not removed''
                      (slog Info ''service removed'' w))
          else Some w)"

definition handleContainerEvent :: "Message \<Rightarrow> World \<Rightarrow> World option" where
  "handleContainerEvent event w =
     (case actorName event of
        None \<Rightarrow> None
      | Some containerName \<Rightarrow>
          if Action event = ''start''
          then Some (slog Info ''container started'' w)
          else if Action event = ''die'' \<or> Action event = ''destroy''
          then Some (slog Debug ''orphan cleanup disabled - DNS records not removed''
                      (slog Info ''container stopped/destroyed'' w))
          else Some w)"

definition handleEvent :: "Message \<Rightarrow> World \<Rightarrow> World option" where
  "handleEvent event w0 =
     (let w = slog Debug ''received event'' w0 in
      if EvType event = ''service'' then handleServiceEvent event w
      else if EvType event = ''container'' then handleContainerEvent event w
      else Some w)"

text \<open>
  The select loop of \<open>Watch\<close> as a transition system. Its state: whether the loop is
  still running, has returned an error, or the process has panicked; the variable
  \<open>pendingReconcile\<close>; and every timer created by \<open>time.AfterFunc\<close>, oldest first,
  with its deadline and status (\<open>debounceTimer\<close> points to the last one).
  The inputs are what the loop and the timer callbacks react to: the context is
  cancelled; a value arrives on the error channel; an event arrives at some time; the
  runtime fires timer \<open>k\<close> (its callback starts and calls \<open>Reconcile\<close>); the
  \<open>Reconcile\<close> call of timer \<open>k\<close>'s callback, for which the platform answered the
  listing given, returns and the callback finishes. The requests of that call are
  placed at its return. On cancellation \<open>Watch\<close> returns the context's error,
  written here as \<open>context canceled\<close>. A panic ends the process, so after it no
  input has any effect; after \<open>Watch\<close> has returned, a timer that was not stopped
  can still fire.
\<close>

datatype TimerStatus = Armed | Fired | Finished | Stopped

record Timer =
  deadline :: int
  status :: TimerStatus

datatype LoopStatus = Running | Returned string | Panicked

record WatchState =
  loop :: LoopStatus
  pendingReconcile :: bool
  timers :: "Timer list"

datatype Input =
    CtxDone
  | ErrCh "string option"
  | EventCh int Message
  | TimerFires nat
  | CallbackReturns nat "string + Workload list"

definition stopTimer :: "Timer \<Rightarrow> Timer" where
  "stopTimer t = (if status t = Armed then t\<lparr>status := Stopped\<rparr> else t)"

fun Watch_step :: "Watcher \<Rightarrow> Input \<Rightarrow> WatchState \<times> World \<Rightarrow> WatchState \<times> World" where
  "Watch_step wt CtxDone (s, w) =
     (if loop s \<noteq> Running then (s, w)
      else (s\<lparr>loop := Returned ''context canceled'',
               timers := (if timers s = [] then [] else butlast (timers s) @ [stopTimer (last (timers s))])\<rparr>,
            slog Info ''event watcher stopped'' w))"
| "Watch_step wt (ErrCh err) (s, w) =
     (if loop s \<noteq> Running then (s, w)
      else case err of
             None \<Rightarrow> (s, w)
           | Some e \<Rightarrow> (s\<lparr>loop := Returned (''event stream error: '' @ e)\<rparr>,
                        slog Error ''event stream error'' w))"
| "Watch_step wt (EventCh now event) (s, w) =
     (if loop s \<noteq> Running then (s, w)
      else case handleEvent event w of
             None \<Rightarrow> (s\<lparr>loop := Panicked\<rparr>, w)
           | Some w1 \<Rightarrow>
               if \<not> pendingReconcile s
               then (s\<lparr>pendingReconcile := True,
                        timers := timers s @ [\<lparr>deadline = now + debounceInterval wt, status = Armed\<rparr>]\<rparr>,
                     w1)
               else (s, w1))"
| "Watch_step wt (TimerFires k) (s, w) =
     (if loop s \<noteq> Panicked \<and> k < length (timers s) \<and> status (timers s ! k) = Armed
      then (s\<lparr>timers := (timers s)[k := (timers s ! k)\<lparr>status := Fired\<rparr>]\<rparr>,
            slog Debug ''debounce timer fired, triggering full reconciliation'' w)
      else (s, w))"
| "Watch_step wt (CallbackReturns k listing) (s, w) =
     (if loop s \<noteq> Panicked \<and> k < length (timers s) \<and> status (timers s ! k) = Fired
      then (case Reconcile (reconciler wt) listing w of
              (Inl err, w1) \<Rightarrow>
                (s\<lparr>pendingReconcile := False,
                   timers := (timers s)[k := (timers s ! k)\<lparr>status := Finished\<rparr>]\<rparr>,
                 slog Error ''reconciliation failed'' w1)
            | (Inr result, w1) \<Rightarrow>
                (s\<lparr>pendingReconcile := False,
                   timers := (timers s)[k := (timers s ! k)\<lparr>status := Finished\<rparr>]\<rparr>,
                 slog Info ''reconciliation triggered by events'' w1))
      else (s, w))"

definition Watch_run :: "Watcher \<Rightarrow> Input list \<Rightarrow> WatchState \<times> World \<Rightarrow> WatchState \<times> World" where
  "Watch_run wt inputs st = foldl (\<lambda>st i. Watch_step wt i st) st inputs"

text \<open>The state in which \<open>Watch\<close> enters its loop.\<close>

definition Watch_init :: WatchState where
  "Watch_init = \<lparr>loop = Running, pendingReconcile = False, timers = []\<rparr>"

section \<open>Notions used in the statements\<close>

text \<open>
  What \<open>HasARecord\<close> and \<open>EnsureARecord\<close> return, read off the world in which they
  are called: the outcome of the query, the records the server holds, and the outcome
  of the add that follows the query.
\<close>

definition hasResult :: "string \<Rightarrow> string \<Rightarrow> string \<Rightarrow> World \<Rightarrow> string + bool" where
  "hasResult z h ip w =
     (case nextOutcome w of
        Succeeds \<Rightarrow> Inr (HasARecord_loop ip (zones w (z, h)))
      | RequestFails e \<Rightarrow> Inl (''getting records for '' @ h @ '': '' @ e)
      | MalformedRecords e \<Rightarrow> Inl (''parsing records response: '' @ e))"

definition ensureResult :: "string \<Rightarrow> string \<Rightarrow> string \<Rightarrow> World \<Rightarrow> string + bool" where
  "ensureResult z h ip w =
     (case nextOutcome w of
        RequestFails e \<Rightarrow> Inl (''getting records for '' @ h @ '': '' @ e)
      | MalformedRecords e \<Rightarrow> Inl (''parsing records response: '' @ e)
      | Succeeds \<Rightarrow>
          if HasARecord_loop ip (zones w (z, h)) then Inr False
          else (case outcomeAt (Suc 0) w of
                  RequestFails e \<Rightarrow> Inl (''adding A record for '' @ h @ '': '' @ e)
                | _ \<Rightarrow> Inr True))"

text \<open>
  Requests by kind, and the requests that failed for the client: those \<open>doRequest\<close>
  returned an error for, and the queries whose answer did not decode.
\<close>

fun isDelete :: "Request \<times> Outcome \<Rightarrow> bool" where
  "isDelete (RecordsDelete zone domain ip, out) = True"
| "isDelete (req, out) = False"

fun isAdd :: "Request \<times> Outcome \<Rightarrow> bool" where
  "isAdd (RecordsAdd zone domain ip ttl, out) = True"
| "isAdd (req, out) = False"

fun failedCall :: "Request \<times> Outcome \<Rightarrow> bool" where
  "failedCall (req, RequestFails e) = True"
| "failedCall (RecordsGet zone domain, MalformedRecords e) = True"
| "failedCall (req, out) = False"

text \<open>
  The gateway is untouched between two worlds: no request was sent, so the zone, the
  outcomes to come and the list of requests are the same (log lines may differ).
\<close>

definition untouched :: "World \<Rightarrow> World \<Rightarrow> bool" where
  "untouched w w' \<longleftrightarrow> zones w' = zones w \<and> faults w' = faults w \<and> calls w' = calls w"

text \<open>The hostnames of a list that pass the filter of a reconciler.\<close>

definition passing :: "Reconciler \<Rightarrow> string list \<Rightarrow> string list" where
  "passing r hostnames = filter (MatchesFilters (cfg r)) hostnames"

text \<open>
  The filter-passing hostnames of a result that are counted neither as created nor as
  already present.
\<close>

definition slack :: "ReconcileResult \<Rightarrow> int" where
  "slack res = HostnamesFiltered res - RecordsCreated res - RecordsExisted res"



text \<open>The number of log lines of level error.\<close>

definition errorLines :: "World \<Rightarrow> nat" where
  "errorLines w = length (filter (\<lambda>l. fst l = Error) (logs w))"

text \<open>Handling a list of events in order; \<open>None\<close> when a handler panics.\<close>

fun handleEvents :: "Message list \<Rightarrow> World \<Rightarrow> World option" where
  "handleEvents [] w = Some w"
| "handleEvents (event # events) w =
     (case handleEvent event w of None \<Rightarrow> None | Some w1 \<Rightarrow> handleEvents events w1)"

text \<open>A timer is live while it is armed or its callback is running.\<close>

definition live :: "Timer \<Rightarrow> bool" where
  "live t \<longleftrightarrow> status t = Armed \<or> status t = Fired"

text \<open>Every record the server holds in the first world it holds in the second.\<close>

definition keeps :: "World \<Rightarrow> World \<Rightarrow> bool" where
  "keeps w w' \<longleftrightarrow> (\<forall>k. set (zones w k) \<subseteq> set (zones w' k))"

section \<open>Example inputs\<close>

text \<open>
  A configuration for the zone \<open>example.com\<close> with the include pattern
  \<open>\.example\.com$\<close> and the exclude pattern \<open>^test\.\<close>, given by the predicates
  these patterns denote. In the examples the label parser is replaced by the function
  that returns the label values.
\<close>

definition exampleConfig :: Config where
  "exampleConfig =
     \<lparr>TechnitiumURL = ''http://dns:5380'', TechnitiumToken = ''token'',
      TechnitiumZone = ''example.com'', TargetIP = ''10.0.0.1'', TTL = 300,
      IncludePattern = Some (Regexp (suffix ''.example.com'')),
      ExcludePattern = Some (Regexp (prefix ''test.'')),
      DockerHost = ''unix:///var/run/docker.sock'', DockerMode = ''auto'',
      ReconcileOnStartup = True, DryRun = False, HealthPort = 8080, LogLevel = ''info''\<rparr>"

definition exampleReconciler :: Reconciler where
  "exampleReconciler = \<lparr>cfg = exampleConfig, parser = map snd\<rparr>"

definition dryRunReconciler :: Reconciler where
  "dryRunReconciler = \<lparr>cfg = exampleConfig\<lparr>DryRun := True\<rparr>, parser = map snd\<rparr>"

definition emptyWorld :: World where
  "emptyWorld = \<lparr>zones = (\<lambda>k. []), faults = [], calls = [], logs = []\<rparr>"

definition exampleRecord :: "bool \<Rightarrow> Record" where
  "exampleRecord off =
     \<lparr>RecName = ''app.example.com'', RecType = ''A'', RecTTL = 300,
      RecData = \<lparr>IPAddress = ''10.0.0.1'', Value = []\<rparr>, Disabled = off\<rparr>"

text \<open>The world whose server holds one record, for \<open>app.example.com\<close>.\<close>

definition worldWith :: "Record \<Rightarrow> World" where
  "worldWith rc =
     emptyWorld\<lparr>zones := (\<lambda>k. if k = (''example.com'', ''app.example.com'') then [rc] else [])\<rparr>"

text \<open>
  Two workloads with one hostname each, and a world with an empty zone in which the
  first request fails.
\<close>

definition exampleWorkloads :: "Workload list" where
  "exampleWorkloads =
     [\<lparr>ID = ''1'', Name = ''alpha'', Labels = [(''traefik.http.routers.alpha.rule'', ''a.example.com'')],
       Type = ''service''\<rparr>,
      \<lparr>ID = ''2'', Name = ''beta'', Labels = [(''traefik.http.routers.beta.rule'', ''b.example.com'')],
       Type = ''service''\<rparr>]"

definition failingWorld :: World where
  "failingWorld = emptyWorld\<lparr>faults := [RequestFails ''connection refused'']\<rparr>"



text \<open>
  A watcher in standalone mode with the default debounce interval, and three events:
  a container starts, dies and is destroyed.
\<close>

definition exampleWatcher :: Watcher where
  "exampleWatcher = \<lparr>dockerMode = ModeStandalone, reconciler = exampleReconciler, debounceInterval = 5\<rparr>"

definition containerEvent :: "string \<Rightarrow> Message" where
  "containerEvent action =
     \<lparr>EvType = ''container'', Action = action,
      Actor = \<lparr>ActorID = ''0123456789abcdef'', Attributes = [''name'' \<mapsto> ''web'']\<rparr>\<rparr>"

definition serviceEvent :: "string \<Rightarrow> Message" where
  "serviceEvent action =
     \<lparr>EvType = ''service'', Action = action,
      Actor = \<lparr>ActorID = ''0123456789abcdef'', Attributes = Map.empty\<rparr>\<rparr>"

section \<open>The client: what each call returns and does to the world\<close>

lemma slog_proj [simp]:
  "zones (slog lv m w) = zones w"
  "faults (slog lv m w) = faults w"
  "calls (slog lv m w) = calls w"
  "logs (slog lv m w) = logs w @ [(lv, m)]"
  by (simp_all add: slog_def)

lemma nextOutcome_slog [simp]: "nextOutcome (slog lv m w) = nextOutcome w"
  by (simp add: nextOutcome_def)

lemma serve_RecordsGet [simp]: "serve (RecordsGet z d) zs = zs"
  by (simp add: serve_def)

lemma doRequest_fst:
  "fst (doRequest req w) =
     (case nextOutcome w of
        Succeeds \<Rightarrow> Inr (RecordsJSON (answer req (zones w)))
      | RequestFails e \<Rightarrow> Inl e
      | MalformedRecords e \<Rightarrow> Inr (Undecodable e))"
  by (simp add: doRequest_def Let_def split: Outcome.splits)

lemma doRequest_calls: "calls (snd (doRequest req w)) = calls w @ [(req, nextOutcome w)]"
  by (simp add: doRequest_def Let_def split: Outcome.splits)

lemma doRequest_faults: "faults (snd (doRequest req w)) = tl (faults w)"
  by (simp add: doRequest_def Let_def split: Outcome.splits)

lemma doRequest_zones:
  "zones (snd (doRequest req w)) =
     (case nextOutcome w of RequestFails e \<Rightarrow> zones w | _ \<Rightarrow> serve req (zones w))"
  by (simp add: doRequest_def Let_def split: Outcome.splits)

lemma GetRecords_fst:
  "fst (GetRecords z h w) =
     (case nextOutcome w of
        Succeeds \<Rightarrow> Inr (zones w (z, h))
      | RequestFails e \<Rightarrow> Inl (''getting records for '' @ h @ '': '' @ e)
      | MalformedRecords e \<Rightarrow> Inl (''parsing records response: '' @ e))"
  by (simp add: GetRecords_def doRequest_def Let_def answer_def split: Outcome.splits)

lemma GetRecords_world:
  "calls (snd (GetRecords z h w)) = calls w @ [(RecordsGet z h, nextOutcome w)]"
  "faults (snd (GetRecords z h w)) = tl (faults w)"
  "zones (snd (GetRecords z h w)) = zones w"
  by (simp_all add: GetRecords_def doRequest_def Let_def split: Outcome.splits)

lemma HasARecord_fst:
  "fst (HasARecord z h ip w) =
     (case nextOutcome w of
        Succeeds \<Rightarrow> Inr (HasARecord_loop ip (zones w (z, h)))
      | RequestFails e \<Rightarrow> Inl (''getting records for '' @ h @ '': '' @ e)
      | MalformedRecords e \<Rightarrow> Inl (''parsing records response: '' @ e))"
  using GetRecords_fst [of z h w]
  by (auto simp: HasARecord_def split: prod.splits sum.splits Outcome.splits)

lemma HasARecord_world:
  "calls (snd (HasARecord z h ip w)) = calls w @ [(RecordsGet z h, nextOutcome w)]"
  "faults (snd (HasARecord z h ip w)) = tl (faults w)"
  "zones (snd (HasARecord z h ip w)) = zones w"
  using GetRecords_world [of z h w]
  by (auto simp: HasARecord_def split: prod.splits sum.splits)

lemma AddARecord_fst:
  "fst (AddARecord z h ip ttl w) =
     (case nextOutcome w of
        RequestFails e \<Rightarrow> Some (''adding A record for '' @ h @ '': '' @ e)
      | _ \<Rightarrow> None)"
  by (simp add: AddARecord_def doRequest_def Let_def split: Outcome.splits)

lemma AddARecord_world:
  "calls (snd (AddARecord z h ip ttl w)) = calls w @ [(RecordsAdd z h ip ttl, nextOutcome w)]"
  "faults (snd (AddARecord z h ip ttl w)) = tl (faults w)"
  "zones (snd (AddARecord z h ip ttl w)) =
     (case nextOutcome w of RequestFails e \<Rightarrow> zones w | _ \<Rightarrow> serve (RecordsAdd z h ip ttl) (zones w))"
  by (simp_all add: AddARecord_def doRequest_def Let_def split: Outcome.splits)



lemma HasARecord_loop_iff:
  "HasARecord_loop ip rs \<longleftrightarrow> (\<exists>r \<in> set rs. RecType r = ''A'' \<and> IPAddress (RecData r) = ip)"
  by (induction rs) auto

lemma nextOutcome_outcomeAt: "nextOutcome w = outcomeAt 0 w"
  by (cases "faults w") (simp_all add: nextOutcome_def outcomeAt_def)

lemma nextOutcome_drop: "faults w' = drop n (faults w) \<Longrightarrow> nextOutcome w' = outcomeAt n w"
  by (cases "drop n (faults w)")
     (auto simp: nextOutcome_def outcomeAt_def hd_drop_conv_nth[symmetric] dest: arg_cong[where f=hd])

lemma nextOutcome_tl: "faults w' = tl (faults w) \<Longrightarrow> nextOutcome w' = outcomeAt (Suc 0) w"
  using nextOutcome_drop [of w' "Suc 0" w] by (simp add: drop_Suc)

lemma HasARecord_cases:
  obtains w1 where "HasARecord z h ip w = (hasResult z h ip w, w1)"
    and "calls w1 = calls w @ [(RecordsGet z h, nextOutcome w)]"
    and "faults w1 = tl (faults w)" and "zones w1 = zones w"
    and "nextOutcome w1 = outcomeAt (Suc 0) w"
proof -
  let ?w1 = "snd (HasARecord z h ip w)"
  have "HasARecord z h ip w = (hasResult z h ip w, ?w1)"
    by (simp add: prod_eq_iff HasARecord_fst hasResult_def)
  moreover have "nextOutcome ?w1 = outcomeAt (Suc 0) w"
    by (rule nextOutcome_tl) (simp add: HasARecord_world)
  ultimately show ?thesis
    using that [of ?w1] by (simp add: HasARecord_world)
qed

lemma AddARecord_cases:
  obtains w1 where
    "AddARecord z h ip ttl w =
       (case nextOutcome w of
          RequestFails e \<Rightarrow> Some (''adding A record for '' @ h @ '': '' @ e) | _ \<Rightarrow> None, w1)"
    and "calls w1 = calls w @ [(RecordsAdd z h ip ttl, nextOutcome w)]"
    and "faults w1 = tl (faults w)"
    and "zones w1 = (case nextOutcome w of RequestFails e \<Rightarrow> zones w
                      | _ \<Rightarrow> serve (RecordsAdd z h ip ttl) (zones w))"
    and "nextOutcome w1 = outcomeAt (Suc 0) w"
proof -
  let ?w1 = "snd (AddARecord z h ip ttl w)"
  have "AddARecord z h ip ttl w =
       (case nextOutcome w of
          RequestFails e \<Rightarrow> Some (''adding A record for '' @ h @ '': '' @ e) | _ \<Rightarrow> None, ?w1)"
    by (simp add: prod_eq_iff AddARecord_fst)
  moreover have "nextOutcome ?w1 = outcomeAt (Suc 0) w"
    by (rule nextOutcome_tl) (simp add: AddARecord_world)
  ultimately show ?thesis
    using that [of ?w1] by (simp add: AddARecord_world)
qed


lemma EnsureARecord_cases:
  obtains w2 where "EnsureARecord z h ip ttl w = (ensureResult z h ip w, w2)"
    and "calls w2 = calls w @ (RecordsGet z h, nextOutcome w) #
       (if nextOutcome w = Succeeds \<and> \<not> HasARecord_loop ip (zones w (z, h))
        then [(RecordsAdd z h ip ttl, outcomeAt (Suc 0) w)] else [])"
    and "zones w2 =
       (if ensureResult z h ip w = Inr True then serve (RecordsAdd z h ip ttl) (zones w) else zones w)"
    and "faults w2 =
       (if nextOutcome w = Succeeds \<and> \<not> HasARecord_loop ip (zones w (z, h))
        then tl (tl (faults w)) else tl (faults w))"
proof -
  obtain w1 where hr: "HasARecord z h ip w = (hasResult z h ip w, w1)"
    and c1: "calls w1 = calls w @ [(RecordsGet z h, nextOutcome w)]"
    and f1: "faults w1 = tl (faults w)" and z1: "zones w1 = zones w"
    and n1: "nextOutcome w1 = outcomeAt (Suc 0) w"
    by (rule HasARecord_cases)
  obtain w2 where ar: "AddARecord z h ip ttl w1 =
       (case nextOutcome w1 of
          RequestFails e \<Rightarrow> Some (''adding A record for '' @ h @ '': '' @ e) | _ \<Rightarrow> None, w2)"
    and c2: "calls w2 = calls w1 @ [(RecordsAdd z h ip ttl, nextOutcome w1)]"
    and f2: "faults w2 = tl (faults w1)"
    and z2: "zones w2 = (case nextOutcome w1 of RequestFails e \<Rightarrow> zones w1
                      | _ \<Rightarrow> serve (RecordsAdd z h ip ttl) (zones w1))"
    by (rule AddARecord_cases)
  let ?w' = "snd (EnsureARecord z h ip ttl w)"
  have e: "EnsureARecord z h ip ttl w = (ensureResult z h ip w, ?w')"
    by (simp add: EnsureARecord_def hr ar hasResult_def ensureResult_def n1 split: Outcome.splits)
  have w': "?w' = (if nextOutcome w = Succeeds
                   then (if HasARecord_loop ip (zones w (z, h))
                         then slog Debug ''A record already exists'' w1 else w2)
                   else w1)"
    by (simp add: EnsureARecord_def hr ar hasResult_def n1 split: Outcome.splits)
  show ?thesis
  proof (rule that [of ?w'])
    show "EnsureARecord z h ip ttl w = (ensureResult z h ip w, ?w')" by (rule e)
    show "calls ?w' = calls w @ (RecordsGet z h, nextOutcome w) #
       (if nextOutcome w = Succeeds \<and> \<not> HasARecord_loop ip (zones w (z, h))
        then [(RecordsAdd z h ip ttl, outcomeAt (Suc 0) w)] else [])"
      by (simp add: w' c1 c2 n1)
    show "zones ?w' =
       (if ensureResult z h ip w = Inr True then serve (RecordsAdd z h ip ttl) (zones w) else zones w)"
      by (simp add: w' z1 z2 n1 ensureResult_def split: Outcome.splits)
    show "faults ?w' =
       (if nextOutcome w = Succeeds \<and> \<not> HasARecord_loop ip (zones w (z, h))
        then tl (tl (faults w)) else tl (faults w))"
      by (simp add: w' f1 f2)
  qed
qed

section \<open>The hostname filter\<close>

text \<open>
  Claim C2. For every hostname and every pair of an optional include and an optional
  exclude pattern, \<open>MatchesFilters\<close> is true if and only if the hostname matches the
  include pattern (a missing include pattern matches every hostname) and does not match
  the exclude pattern (a missing exclude pattern excludes nothing); a hostname the
  exclude pattern matches is rejected whatever the include pattern says. The predicate
  is a function of the configuration and the hostname alone: it reads and changes
  nothing else.
\<close>

theorem MatchesFilters_iff:
  "(MatchesFilters c h \<longleftrightarrow>
      (case IncludePattern c of None \<Rightarrow> True | Some inc \<Rightarrow> MatchString inc h) \<and>
      (case ExcludePattern c of None \<Rightarrow> True | Some exc \<Rightarrow> \<not> MatchString exc h)) \<and>
   (\<forall>exc. ExcludePattern c = Some exc \<and> MatchString exc h \<longrightarrow> \<not> MatchesFilters c h)"
  by (auto simp: MatchesFilters_def split: option.splits)

theorem MatchesFilters_iff_witness:
  "MatchesFilters exampleConfig ''app.example.com'' \<and>
   \<not> MatchesFilters exampleConfig ''test.example.com'' \<and>
   \<not> MatchesFilters exampleConfig ''app.example.org'' \<and>
   \<not> MatchesFilters (exampleConfig\<lparr>IncludePattern := None\<rparr>) ''test.example.org'' \<and>
   MatchesFilters (exampleConfig\<lparr>ExcludePattern := None\<rparr>) ''test.example.com''"
  using MatchesFilters_iff [of exampleConfig "''app.example.com''"]
    MatchesFilters_iff [of exampleConfig "''test.example.com''"]
    MatchesFilters_iff [of exampleConfig "''app.example.org''"]
    MatchesFilters_iff [of "exampleConfig\<lparr>IncludePattern := None\<rparr>" "''test.example.org''"]
    MatchesFilters_iff [of "exampleConfig\<lparr>ExcludePattern := None\<rparr>" "''test.example.com''"]
  by (simp add: exampleConfig_def suffix_to_prefix)

lemma example_matches:
  "MatchesFilters exampleConfig ''app.example.com''"
  "MatchesFilters exampleConfig ''api.example.com''"
  "\<not> MatchesFilters exampleConfig ''test.example.com''"
  "\<not> MatchesFilters exampleConfig ''app.example.org''"
  by (simp_all add: MatchesFilters_def exampleConfig_def suffix_to_prefix)

section \<open>Disabled records\<close>

lemma HasARecord_loop_Disabled:
  "HasARecord_loop ip (map (\<lambda>r. r\<lparr>Disabled := b\<rparr>) rs) = HasARecord_loop ip rs"
  by (induction rs) auto

text \<open>
  Claim C9. The existence check looks at the type and the address of a record only:
  setting the \<open>Disabled\<close> flag of the records returned, to either value, does not
  change its answer. So whenever the query is answered and the server holds, for the
  zone and hostname, a record of type A with the target address, disabled or not,
  \<open>HasARecord\<close> reports it, and \<open>EnsureARecord\<close> reports the record as existing,
  sends the query and nothing else (no create), and leaves the zone as it is.
\<close>

theorem disabled_record_is_present:
  assumes "nextOutcome w = Succeeds"
    and "rc \<in> set (zones w (zone, hostname))"
    and "RecType rc = ''A''" and "IPAddress (RecData rc) = ip"
  shows "HasARecord_loop ip (map (\<lambda>r. r\<lparr>Disabled := b\<rparr>) rs) = HasARecord_loop ip rs \<and>
         fst (HasARecord zone hostname ip w) = Inr True \<and>
         fst (EnsureARecord zone hostname ip ttl w) = Inr False \<and>
         calls (snd (EnsureARecord zone hostname ip ttl w)) =
           calls w @ [(RecordsGet zone hostname, Succeeds)] \<and>
         zones (snd (EnsureARecord zone hostname ip ttl w)) = zones w"
proof -
  have has: "HasARecord_loop ip (zones w (zone, hostname))"
    using assms(2-4) by (auto simp: HasARecord_loop_iff)
  obtain w2 where "EnsureARecord zone hostname ip ttl w = (ensureResult zone hostname ip w, w2)"
    and "calls w2 = calls w @ (RecordsGet zone hostname, nextOutcome w) #
       (if nextOutcome w = Succeeds \<and> \<not> HasARecord_loop ip (zones w (zone, hostname))
        then [(RecordsAdd zone hostname ip ttl, outcomeAt (Suc 0) w)] else [])"
    and "zones w2 =
       (if ensureResult zone hostname ip w = Inr True
        then serve (RecordsAdd zone hostname ip ttl) (zones w) else zones w)"
    by (rule EnsureARecord_cases)
  then show ?thesis
    using has assms(1) by (simp add: HasARecord_fst ensureResult_def HasARecord_loop_Disabled)
qed

theorem disabled_record_is_present_witness:
  "Disabled (exampleRecord True) \<and>
   fst (HasARecord ''example.com'' ''app.example.com'' ''10.0.0.1'' (worldWith (exampleRecord True)))
     = Inr True \<and>
   fst (EnsureARecord ''example.com'' ''app.example.com'' ''10.0.0.1'' 300 (worldWith (exampleRecord True)))
     = Inr False \<and>
   calls (snd (EnsureARecord ''example.com'' ''app.example.com'' ''10.0.0.1'' 300
                 (worldWith (exampleRecord True))))
     = [(RecordsGet ''example.com'' ''app.example.com'', Succeeds)]"
  using disabled_record_is_present [of "worldWith (exampleRecord True)" "exampleRecord True"
      "''example.com''" "''app.example.com''" "''10.0.0.1''" True "[]" 300]
  by (simp add: worldWith_def emptyWorld_def exampleRecord_def nextOutcome_def)

section \<open>Idempotent ensure\<close>

lemma ensureRecord_filtered:
  "\<not> MatchesFilters (cfg r) h \<Longrightarrow>
   ensureRecord r n h res w = (None, res, slog Debug ''hostname filtered out'' w)"
  by (simp add: ensureRecord_def)

lemma ensureRecord_dry:
  "MatchesFilters (cfg r) h \<Longrightarrow> DryRun (cfg r) \<Longrightarrow>
   ensureRecord r n h res w =
     (None, res\<lparr>HostnamesFiltered := HostnamesFiltered res + 1, RecordsCreated := RecordsCreated res + 1\<rparr>,
      slog Info ''DRY RUN: would ensure A record'' w)"
  by (simp add: ensureRecord_def Let_def)

lemma ensureRecord_live:
  assumes "MatchesFilters (cfg r) h" and "\<not> DryRun (cfg r)"
  obtains w2 where
    "ensureRecord r n h res w =
       (case ensureResult (TechnitiumZone (cfg r)) h (TargetIP (cfg r)) w of
          Inl err \<Rightarrow> Some (''creating A record: '' @ err) | Inr created \<Rightarrow> None,
        case ensureResult (TechnitiumZone (cfg r)) h (TargetIP (cfg r)) w of
          Inl err \<Rightarrow> res\<lparr>HostnamesFiltered := HostnamesFiltered res + 1\<rparr>
        | Inr created \<Rightarrow>
            if created
            then res\<lparr>HostnamesFiltered := HostnamesFiltered res + 1, RecordsCreated := RecordsCreated res + 1\<rparr>
            else res\<lparr>HostnamesFiltered := HostnamesFiltered res + 1, RecordsExisted := RecordsExisted res + 1\<rparr>,
        w2)"
    and "calls w2 = calls w @ (RecordsGet (TechnitiumZone (cfg r)) h, nextOutcome w) #
       (if nextOutcome w = Succeeds \<and> \<not> HasARecord_loop (TargetIP (cfg r)) (zones w (TechnitiumZone (cfg r), h))
        then [(RecordsAdd (TechnitiumZone (cfg r)) h (TargetIP (cfg r)) (TTL (cfg r)), outcomeAt (Suc 0) w)] else [])"
    and "zones w2 =
       (if ensureResult (TechnitiumZone (cfg r)) h (TargetIP (cfg r)) w = Inr True
        then serve (RecordsAdd (TechnitiumZone (cfg r)) h (TargetIP (cfg r)) (TTL (cfg r))) (zones w)
        else zones w)"
    and "faults w2 =
       (if nextOutcome w = Succeeds \<and> \<not> HasARecord_loop (TargetIP (cfg r)) (zones w (TechnitiumZone (cfg r), h))
        then tl (tl (faults w)) else tl (faults w))"
proof -
  let ?z = "TechnitiumZone (cfg r)" and ?ip = "TargetIP (cfg r)" and ?ttl = "TTL (cfg r)"
  obtain w1 where e: "EnsureARecord ?z h ?ip ?ttl w = (ensureResult ?z h ?ip w, w1)"
    and c: "calls w1 = calls w @ (RecordsGet ?z h, nextOutcome w) #
       (if nextOutcome w = Succeeds \<and> \<not> HasARecord_loop ?ip (zones w (?z, h))
        then [(RecordsAdd ?z h ?ip ?ttl, outcomeAt (Suc 0) w)] else [])"
    and z: "zones w1 =
       (if ensureResult ?z h ?ip w = Inr True then serve (RecordsAdd ?z h ?ip ?ttl) (zones w) else zones w)"
    and f: "faults w1 =
       (if nextOutcome w = Succeeds \<and> \<not> HasARecord_loop ?ip (zones w (?z, h))
        then tl (tl (faults w)) else tl (faults w))"
    by (rule EnsureARecord_cases)
  let ?w2 = "snd (snd (ensureRecord r n h res w))"
  have w2: "?w2 = (case ensureResult ?z h ?ip w of Inl err \<Rightarrow> w1
                   | Inr created \<Rightarrow> if created then slog Info ''created A record'' w1
                                    else slog Debug ''A record already exists'' w1)"
    using assms by (simp add: ensureRecord_def Let_def e split: sum.splits)
  show ?thesis
  proof (rule that [of ?w2])
    show "ensureRecord r n h res w =
       (case ensureResult ?z h ?ip w of
          Inl err \<Rightarrow> Some (''creating A record: '' @ err) | Inr created \<Rightarrow> None,
        case ensureResult ?z h ?ip w of
          Inl err \<Rightarrow> res\<lparr>HostnamesFiltered := HostnamesFiltered res + 1\<rparr>
        | Inr created \<Rightarrow>
            if created
            then res\<lparr>HostnamesFiltered := HostnamesFiltered res + 1, RecordsCreated := RecordsCreated res + 1\<rparr>
            else res\<lparr>HostnamesFiltered := HostnamesFiltered res + 1, RecordsExisted := RecordsExisted res + 1\<rparr>,
        ?w2)"
      using assms by (simp add: ensureRecord_def Let_def e split: sum.splits)
    show "calls ?w2 = calls w @ (RecordsGet ?z h, nextOutcome w) #
       (if nextOutcome w = Succeeds \<and> \<not> HasARecord_loop ?ip (zones w (?z, h))
        then [(RecordsAdd ?z h ?ip ?ttl, outcomeAt (Suc 0) w)] else [])"
      unfolding w2 using c by (simp split: sum.splits)
    show "zones ?w2 =
       (if ensureResult ?z h ?ip w = Inr True then serve (RecordsAdd ?z h ?ip ?ttl) (zones w) else zones w)"
      unfolding w2 using z by (simp split: sum.splits)
    show "faults ?w2 =
       (if nextOutcome w = Succeeds \<and> \<not> HasARecord_loop ?ip (zones w (?z, h))
        then tl (tl (faults w)) else tl (faults w))"
      unfolding w2 using f by (simp split: sum.splits)
  qed
qed





lemmas eval_defs = ensureRecord_def EnsureARecord_def HasARecord_def GetRecords_def AddARecord_def
  DeleteARecord_def doRequest_def slog_def nextOutcome_def answer_def serve_def Let_def
  MatchesFilters_def exampleConfig_def exampleReconciler_def dryRunReconciler_def emptyWorld_def
  emptyResult_def worldWith_def exampleRecord_def suffix_to_prefix





section \<open>The reconciler: what each call does to the result and to the requests\<close>

lemma untouched_refl [simp]: "untouched w w"
  by (simp add: untouched_def)

lemma untouched_slog [simp]: "untouched w (slog lv m w') \<longleftrightarrow> untouched w w'"
  by (simp add: untouched_def)

lemma untouched_slog_left [simp]: "untouched (slog lv m w) w' \<longleftrightarrow> untouched w w'"
  by (simp add: untouched_def)

lemma untouched_trans: "untouched w w1 \<Longrightarrow> untouched w1 w2 \<Longrightarrow> untouched w w2"
  by (simp add: untouched_def)

text \<open>What one \<open>ensureRecord\<close> call does to the result and to the requests, in every mode.\<close>

lemma ensureRecord_result:
  assumes "ensureRecord r n h res w = (e, res', w')"
  shows "WorkloadsScanned res' = WorkloadsScanned res"
    and "HostnamesFound res' = HostnamesFound res"
    and "Errors res' = Errors res"
    and "slack res' = slack res + (if e = None then 0 else 1)"
    and "HostnamesFiltered res' = HostnamesFiltered res + (if MatchesFilters (cfg r) h then 1 else 0)"
proof -
  consider (f) "\<not> MatchesFilters (cfg r) h" | (d) "MatchesFilters (cfg r) h" "DryRun (cfg r)"
    | (l) "MatchesFilters (cfg r) h" "\<not> DryRun (cfg r)" by blast
  then have "WorkloadsScanned res' = WorkloadsScanned res \<and> HostnamesFound res' = HostnamesFound res \<and>
     Errors res' = Errors res \<and> slack res' = slack res + (if e = None then 0 else 1) \<and>
     HostnamesFiltered res' = HostnamesFiltered res + (if MatchesFilters (cfg r) h then 1 else 0)"
  proof cases
    case f
    then show ?thesis using assms by (simp add: ensureRecord_filtered)
  next
    case d
    then show ?thesis using assms by (auto simp: ensureRecord_dry slack_def)
  next
    case l
    show ?thesis
      by (rule ensureRecord_live [OF l, of n res w]) (use assms l in \<open>auto simp: slack_def split: sum.splits\<close>)
  qed
  then show "WorkloadsScanned res' = WorkloadsScanned res"
    and "HostnamesFound res' = HostnamesFound res"
    and "Errors res' = Errors res"
    and "slack res' = slack res + (if e = None then 0 else 1)"
    and "HostnamesFiltered res' = HostnamesFiltered res + (if MatchesFilters (cfg r) h then 1 else 0)"
    by simp_all
qed

lemma ensureRecord_calls:
  assumes "ensureRecord r n h res w = (e, res', w')"
  shows "filter isDelete (calls w') = filter isDelete (calls w)"
    and "length (filter failedCall (calls w')) = length (filter failedCall (calls w)) + (if e = None then 0 else 1)"
    and "set (calls w) \<subseteq> set (calls w')"
    and "DryRun (cfg r) \<or> \<not> MatchesFilters (cfg r) h \<Longrightarrow> untouched w w'"
    and "DryRun (cfg r) \<Longrightarrow> e = None"
    and "\<not> DryRun (cfg r) \<Longrightarrow> MatchesFilters (cfg r) h \<Longrightarrow>
           (RecordsGet (TechnitiumZone (cfg r)) h, nextOutcome w) \<in> set (calls w')"
proof -
  consider (f) "\<not> MatchesFilters (cfg r) h" | (d) "MatchesFilters (cfg r) h" "DryRun (cfg r)"
    | (l) "MatchesFilters (cfg r) h" "\<not> DryRun (cfg r)" by blast
  then have "filter isDelete (calls w') = filter isDelete (calls w) \<and>
    length (filter failedCall (calls w')) = length (filter failedCall (calls w)) + (if e = None then 0 else 1) \<and>
    set (calls w) \<subseteq> set (calls w') \<and>
    (DryRun (cfg r) \<or> \<not> MatchesFilters (cfg r) h \<longrightarrow> untouched w w') \<and>
    (DryRun (cfg r) \<longrightarrow> e = None) \<and>
    (\<not> DryRun (cfg r) \<longrightarrow> MatchesFilters (cfg r) h \<longrightarrow>
           (RecordsGet (TechnitiumZone (cfg r)) h, nextOutcome w) \<in> set (calls w'))"
  proof cases
    case f
    then show ?thesis using assms by (auto simp: ensureRecord_filtered)
  next
    case d
    then show ?thesis using assms by (auto simp: ensureRecord_dry)
  next
    case l
    show ?thesis
      by (rule ensureRecord_live [OF l, of n res w])
         (use assms l in \<open>auto simp: ensureResult_def split: sum.splits Outcome.splits if_splits\<close>)
  qed
  then show "filter isDelete (calls w') = filter isDelete (calls w)"
    and "length (filter failedCall (calls w')) = length (filter failedCall (calls w)) + (if e = None then 0 else 1)"
    and "set (calls w) \<subseteq> set (calls w')"
    and "DryRun (cfg r) \<or> \<not> MatchesFilters (cfg r) h \<Longrightarrow> untouched w w'"
    and "DryRun (cfg r) \<Longrightarrow> e = None"
    and "\<not> DryRun (cfg r) \<Longrightarrow> MatchesFilters (cfg r) h \<Longrightarrow>
           (RecordsGet (TechnitiumZone (cfg r)) h, nextOutcome w) \<in> set (calls w')"
    by simp_all
qed

lemma processWorkload_loop_inv:
  "processWorkload_loop r n hosts res w = (e, res', w') \<Longrightarrow>
     WorkloadsScanned res' = WorkloadsScanned res \<and>
     HostnamesFound res' = HostnamesFound res \<and>
     Errors res' = Errors res \<and>
     slack res' = slack res + (if e = None then 0 else 1) \<and>
     filter isDelete (calls w') = filter isDelete (calls w) \<and>
     length (filter failedCall (calls w')) = length (filter failedCall (calls w)) + (if e = None then 0 else 1) \<and>
     set (calls w) \<subseteq> set (calls w')"
proof (induction hosts arbitrary: res w)
  case Nil
  then show ?case by simp
next
  case (Cons h hosts)
  obtain e1 res1 w1 where er: "ensureRecord r n h res w = (e1, res1, w1)"
    by (cases "ensureRecord r n h res w")
  note R = ensureRecord_result [OF er] and C = ensureRecord_calls(1-3) [OF er]
  show ?case
  proof (cases e1)
    case None
    with Cons.prems er have "processWorkload_loop r n hosts res1 w1 = (e, res', w')" by simp
    from Cons.IH [OF this] R C None show ?thesis by auto
  next
    case (Some err)
    with Cons.prems er have "e = Some (''ensuring record for '' @ h @ '': '' @ err)" "res' = res1" "w' = w1"
      by simp_all
    with R C Some show ?thesis by simp
  qed
qed

lemma processWorkload_loop_dry:
  "DryRun (cfg r) \<Longrightarrow> processWorkload_loop r n hosts res w = (e, res', w') \<Longrightarrow>
     e = None \<and> untouched w w' \<and>
     RecordsCreated res' = RecordsCreated res + int (length (passing r hosts)) \<and>
     HostnamesFiltered res' = HostnamesFiltered res + int (length (passing r hosts))"
proof (induction hosts arbitrary: res w)
  case Nil
  then show ?case by (simp add: passing_def)
next
  case (Cons h hosts)
  obtain e1 res1 w1 where er: "ensureRecord r n h res w = (e1, res1, w1)"
    by (cases "ensureRecord r n h res w")
  have e1: "e1 = None" and u: "untouched w w1"
    using ensureRecord_calls(4,5) [OF er] Cons.prems(1) by simp_all
  have rc: "RecordsCreated res1 = RecordsCreated res + (if MatchesFilters (cfg r) h then 1 else 0)"
    and hf: "HostnamesFiltered res1 = HostnamesFiltered res + (if MatchesFilters (cfg r) h then 1 else 0)"
    using er Cons.prems(1)
    by (cases "MatchesFilters (cfg r) h"; auto simp: ensureRecord_filtered ensureRecord_dry)+
  from Cons.prems er e1 have "processWorkload_loop r n hosts res1 w1 = (e, res', w')" by simp
  from Cons.IH [OF Cons.prems(1) this] u rc hf show ?case
    by (auto simp: passing_def intro: untouched_trans)
qed

lemma processWorkload_loop_first:
  "\<not> DryRun (cfg r) \<Longrightarrow> processWorkload_loop r n hosts res w = (e, res', w') \<Longrightarrow>
   find (MatchesFilters (cfg r)) hosts = Some h \<Longrightarrow>
   (RecordsGet (TechnitiumZone (cfg r)) h, nextOutcome w) \<in> set (calls w')"
proof (induction hosts arbitrary: res w)
  case Nil
  then show ?case by simp
next
  case (Cons h0 hosts)
  obtain e1 res1 w1 where er: "ensureRecord r n h0 res w = (e1, res1, w1)"
    by (cases "ensureRecord r n h0 res w")
  show ?case
  proof (cases "MatchesFilters (cfg r) h0")
    case True
    then have h: "h = h0" using Cons.prems(3) by simp
    have in1: "(RecordsGet (TechnitiumZone (cfg r)) h, nextOutcome w) \<in> set (calls w1)"
      using ensureRecord_calls(6) [OF er Cons.prems(1) True] h by simp
    show ?thesis
    proof (cases e1)
      case None
      with Cons.prems er have "processWorkload_loop r n hosts res1 w1 = (e, res', w')" by simp
      from processWorkload_loop_inv [OF this] in1 show ?thesis by auto
    next
      case (Some err)
      with Cons.prems er have "w' = w1" by simp
      with in1 show ?thesis by simp
    qed
  next
    case False
    then have er': "e1 = None" "w1 = slog Debug ''hostname filtered out'' w"
      using er by (simp_all add: ensureRecord_filtered)
    with Cons.prems er have l: "processWorkload_loop r n hosts res1 w1 = (e, res', w')" by simp
    have f: "find (MatchesFilters (cfg r)) hosts = Some h" using Cons.prems(3) False by simp
    from Cons.IH [OF Cons.prems(1) l f] er' show ?thesis by simp
  qed
qed

lemma processWorkload_inv:
  assumes "processWorkload r wl res w = (e, res', w')"
  shows "WorkloadsScanned res' = WorkloadsScanned res \<and>
     HostnamesFound res' = HostnamesFound res + int (length (parser r (Labels wl))) \<and>
     Errors res' = Errors res \<and>
     slack res' = slack res + (if e = None then 0 else 1) \<and>
     filter isDelete (calls w') = filter isDelete (calls w) \<and>
     length (filter failedCall (calls w')) = length (filter failedCall (calls w)) + (if e = None then 0 else 1) \<and>
     set (calls w) \<subseteq> set (calls w')"
proof (cases "parser r (Labels wl) = []")
  case True
  then show ?thesis using assms by (auto simp: processWorkload_def)
next
  case False
  then have "processWorkload_loop r (Name wl) (parser r (Labels wl))
             (res\<lparr>HostnamesFound := HostnamesFound res + int (length (parser r (Labels wl)))\<rparr>)
             (slog Debug ''found traefik hosts'' w) = (e, res', w')"
    using assms by (simp add: processWorkload_def Let_def)
  from processWorkload_loop_inv [OF this] show ?thesis by (simp add: slack_def)
qed

lemma processWorkload_dry:
  assumes "DryRun (cfg r)" and "processWorkload r wl res w = (e, res', w')"
  shows "e = None \<and> untouched w w' \<and>
     RecordsCreated res' = RecordsCreated res + int (length (passing r (parser r (Labels wl)))) \<and>
     HostnamesFiltered res' = HostnamesFiltered res + int (length (passing r (parser r (Labels wl))))"
proof (cases "parser r (Labels wl) = []")
  case True
  then show ?thesis using assms by (auto simp: processWorkload_def passing_def)
next
  case False
  then have "processWorkload_loop r (Name wl) (parser r (Labels wl))
             (res\<lparr>HostnamesFound := HostnamesFound res + int (length (parser r (Labels wl)))\<rparr>)
             (slog Debug ''found traefik hosts'' w) = (e, res', w')"
    using assms by (simp add: processWorkload_def Let_def)
  from processWorkload_loop_dry [OF assms(1) this] show ?thesis by (simp add: untouched_def)
qed

lemma processWorkload_first:
  assumes "\<not> DryRun (cfg r)" and "processWorkload r wl res w = (e, res', w')"
    and "find (MatchesFilters (cfg r)) (parser r (Labels wl)) = Some h"
  shows "(RecordsGet (TechnitiumZone (cfg r)) h, nextOutcome w) \<in> set (calls w')"
proof -
  have "parser r (Labels wl) \<noteq> []" using assms(3) by auto
  then have "processWorkload_loop r (Name wl) (parser r (Labels wl))
             (res\<lparr>HostnamesFound := HostnamesFound res + int (length (parser r (Labels wl)))\<rparr>)
             (slog Debug ''found traefik hosts'' w) = (e, res', w')"
    using assms by (simp add: processWorkload_def Let_def)
  from processWorkload_loop_first [OF assms(1) this assms(3)] show ?thesis by simp
qed

lemma Reconcile_loop_inv:
  "Reconcile_loop r ws res w = (res', w') \<Longrightarrow>
     WorkloadsScanned res' = WorkloadsScanned res \<and>
     HostnamesFound res' = HostnamesFound res + (\<Sum>wl\<leftarrow>ws. int (length (parser r (Labels wl)))) \<and>
     slack res' - int (length (Errors res')) = slack res - int (length (Errors res)) \<and>
     length (Errors res') \<le> length (Errors res) + length ws \<and>
     (\<exists>es. Errors res' = Errors res @ es \<and>
           (\<forall>e\<in>set es. \<exists>wl\<in>set ws. prefix (''workload '' @ Name wl @ '': '') e)) \<and>
     filter isDelete (calls w') = filter isDelete (calls w) \<and>
     length (filter failedCall (calls w')) + length (Errors res) =
       length (filter failedCall (calls w)) + length (Errors res') \<and>
     set (calls w) \<subseteq> set (calls w')"
proof (induction ws arbitrary: res w)
  case Nil
  then show ?case by simp
next
  case (Cons wl ws)
  obtain e1 res1 w1 where pw: "processWorkload r wl res w = (e1, res1, w1)"
    by (cases "processWorkload r wl res w")
  note P = processWorkload_inv [OF pw]
  show ?case
  proof (cases e1)
    case None
    with Cons.prems pw have l: "Reconcile_loop r ws res1 w1 = (res', w')" by simp
    from Cons.IH [OF l] obtain es where es: "Errors res' = Errors res1 @ es"
      "\<forall>e\<in>set es. \<exists>wl\<in>set ws. prefix (''workload '' @ Name wl @ '': '') e" by blast
    have "\<exists>es. Errors res' = Errors res @ es \<and>
           (\<forall>e\<in>set es. \<exists>wl\<in>set (wl # ws). prefix (''workload '' @ Name wl @ '': '') e)"
      using es P by auto
    with Cons.IH [OF l] P None show ?thesis by auto
  next
    case (Some err)
    let ?res2 = "res1\<lparr>Errors := Errors res1 @ [''workload '' @ Name wl @ '': '' @ err]\<rparr>"
    let ?w2 = "slog Error ''failed to process workload'' w1"
    from Some Cons.prems pw have l: "Reconcile_loop r ws ?res2 ?w2 = (res', w')" by simp
    from Cons.IH [OF l] obtain es where es: "Errors res' = Errors ?res2 @ es"
      "\<forall>e\<in>set es. \<exists>wl\<in>set ws. prefix (''workload '' @ Name wl @ '': '') e" by blast
    have "Errors res' = Errors res @ ((''workload '' @ Name wl @ '': '' @ err) # es)"
      using es(1) P by simp
    moreover have "\<forall>e\<in>set ((''workload '' @ Name wl @ '': '' @ err) # es).
        \<exists>wl\<in>set (wl # ws). prefix (''workload '' @ Name wl @ '': '') e"
      using es(2) by auto
    ultimately have E: "\<exists>es. Errors res' = Errors res @ es \<and>
           (\<forall>e\<in>set es. \<exists>wl\<in>set (wl # ws). prefix (''workload '' @ Name wl @ '': '') e)"
      by blast
    from Cons.IH [OF l] P Some have
     "WorkloadsScanned res' = WorkloadsScanned res \<and>
     HostnamesFound res' = HostnamesFound res + (\<Sum>wl\<leftarrow>wl # ws. int (length (parser r (Labels wl)))) \<and>
     slack res' - int (length (Errors res')) = slack res - int (length (Errors res)) \<and>
     length (Errors res') \<le> length (Errors res) + length (wl # ws) \<and>
     filter isDelete (calls w') = filter isDelete (calls w) \<and>
     length (filter failedCall (calls w')) + length (Errors res) =
       length (filter failedCall (calls w)) + length (Errors res') \<and>
     set (calls w) \<subseteq> set (calls w')"
      by (auto simp: slack_def)
    with E show ?thesis by blast
  qed
qed

lemma Reconcile_loop_dry:
  "DryRun (cfg r) \<Longrightarrow> Reconcile_loop r ws res w = (res', w') \<Longrightarrow>
     untouched w w' \<and> Errors res' = Errors res \<and>
     RecordsCreated res' = RecordsCreated res + (\<Sum>wl\<leftarrow>ws. int (length (passing r (parser r (Labels wl))))) \<and>
     HostnamesFiltered res' = HostnamesFiltered res + (\<Sum>wl\<leftarrow>ws. int (length (passing r (parser r (Labels wl)))))"
proof (induction ws arbitrary: res w)
  case Nil
  then show ?case by simp
next
  case (Cons wl ws)
  obtain e1 res1 w1 where pw: "processWorkload r wl res w = (e1, res1, w1)"
    by (cases "processWorkload r wl res w")
  note D = processWorkload_dry [OF Cons.prems(1) pw] and P = processWorkload_inv [OF pw]
  from D Cons.prems pw have l: "Reconcile_loop r ws res1 w1 = (res', w')" by simp
  from Cons.IH [OF Cons.prems(1) l] D P show ?case
    by (auto intro: untouched_trans)
qed

lemma Reconcile_loop_attempts:
  "\<not> DryRun (cfg r) \<Longrightarrow> Reconcile_loop r ws res w = (res', w') \<Longrightarrow> wl \<in> set ws \<Longrightarrow>
   find (MatchesFilters (cfg r)) (parser r (Labels wl)) = Some h \<Longrightarrow>
   \<exists>out. (RecordsGet (TechnitiumZone (cfg r)) h, out) \<in> set (calls w')"
proof (induction ws arbitrary: res w)
  case Nil
  then show ?case by simp
next
  case (Cons wl0 ws)
  obtain e1 res1 w1 where pw: "processWorkload r wl0 res w = (e1, res1, w1)"
    by (cases "processWorkload r wl0 res w")
  obtain res2 w2 where l: "Reconcile_loop r ws res2 w2 = (res', w')" and c: "calls w2 = calls w1"
    using Cons.prems(2) pw by (cases e1) auto
  show ?case
  proof (cases "wl = wl0")
    case True
    have "(RecordsGet (TechnitiumZone (cfg r)) h, nextOutcome w) \<in> set (calls w1)"
      using processWorkload_first [OF Cons.prems(1) pw] Cons.prems(4) True by simp
    then show ?thesis using Reconcile_loop_inv [OF l] c by auto
  next
    case False
    then have "wl \<in> set ws" using Cons.prems(3) by simp
    from Cons.IH [OF Cons.prems(1) l this Cons.prems(4)] show ?thesis .
  qed
qed

section \<open>The error policy of a full pass\<close>

lemma emptyResult_proj [simp]:
  "WorkloadsScanned emptyResult = 0" "HostnamesFound emptyResult = 0"
  "HostnamesFiltered emptyResult = 0" "RecordsCreated emptyResult = 0"
  "RecordsExisted emptyResult = 0" "Errors emptyResult = []"
  by (simp_all add: emptyResult_def)

lemma slack_emptyResult [simp]: "slack (emptyResult\<lparr>WorkloadsScanned := n\<rparr>) = 0"
  by (simp add: slack_def emptyResult_def)

text \<open>
  Claim C3. When listing the workloads fails, \<open>Reconcile\<close> returns that error
  (wrapped as a listing error) and no result, having written its first log line and
  sent no request. When listing succeeds it returns a result and no error, for every
  list of workloads and whatever requests fail: the result counts all workloads and all
  hostnames extracted from all of them; the filter-passing hostnames are those counted
  as created or already present plus one per error; there is at most one error per
  workload, each error names a workload of the list, and there are exactly as many
  errors as requests that failed. Outside dry-run, every workload with a hostname that
  passes the filter has its first such hostname queried at the gateway, so a failure in
  one workload does not stop the processing of the others.
\<close>

theorem Reconcile_error_policy:
  "Reconcile r (Inl err) w = (Inl (''listing workloads: '' @ err), slog Info ''starting reconciliation'' w) \<and>
   (\<exists>res w'. Reconcile r (Inr ws) w = (Inr res, w') \<and>
      WorkloadsScanned res = int (length ws) \<and>
      HostnamesFound res = (\<Sum>wl\<leftarrow>ws. int (length (parser r (Labels wl)))) \<and>
      HostnamesFiltered res = RecordsCreated res + RecordsExisted res + int (length (Errors res)) \<and>
      length (Errors res) \<le> length ws \<and>
      length (filter failedCall (calls w')) = length (filter failedCall (calls w)) + length (Errors res) \<and>
      (\<forall>e\<in>set (Errors res). \<exists>wl\<in>set ws. prefix (''workload '' @ Name wl @ '': '') e) \<and>
      (\<not> DryRun (cfg r) \<longrightarrow>
         (\<forall>wl\<in>set ws. \<forall>h. find (MatchesFilters (cfg r)) (parser r (Labels wl)) = Some h \<longrightarrow>
            (\<exists>out. (RecordsGet (TechnitiumZone (cfg r)) h, out) \<in> set (calls w')))))"
proof
  show "Reconcile r (Inl err) w = (Inl (''listing workloads: '' @ err), slog Info ''starting reconciliation'' w)"
    by (simp add: Reconcile_def)
next
  let ?res0 = "emptyResult\<lparr>WorkloadsScanned := int (length ws)\<rparr>"
  let ?w0 = "slog Debug ''scanned workloads'' (slog Info ''starting reconciliation'' w)"
  obtain res w1 where l: "Reconcile_loop r ws ?res0 ?w0 = (res, w1)"
    by (cases "Reconcile_loop r ws ?res0 ?w0")
  let ?w' = "slog Info ''reconciliation complete'' w1"
  have R: "Reconcile r (Inr ws) w = (Inr res, ?w')"
    by (simp add: Reconcile_def l)
  have e0: "Errors ?res0 = []" "WorkloadsScanned ?res0 = int (length ws)" "HostnamesFound ?res0 = 0"
    by (simp_all add: emptyResult_def)
  note I = Reconcile_loop_inv [OF l]
  have 1: "WorkloadsScanned res = int (length ws)" using I e0 by simp
  have 2: "HostnamesFound res = (\<Sum>wl\<leftarrow>ws. int (length (parser r (Labels wl))))" using I e0 by simp
  have "slack res - int (length (Errors res)) = 0" using I e0 by simp
  then have 3: "HostnamesFiltered res = RecordsCreated res + RecordsExisted res + int (length (Errors res))"
    by (simp add: slack_def)
  have 4: "length (Errors res) \<le> length ws" using I e0 by simp
  have 5: "length (filter failedCall (calls ?w')) = length (filter failedCall (calls w)) + length (Errors res)"
    using I e0 by simp
  have 6: "\<forall>e\<in>set (Errors res). \<exists>wl\<in>set ws. prefix (''workload '' @ Name wl @ '': '') e"
    using I e0 by auto
  have 7: "\<not> DryRun (cfg r) \<longrightarrow>
         (\<forall>wl\<in>set ws. \<forall>h. find (MatchesFilters (cfg r)) (parser r (Labels wl)) = Some h \<longrightarrow>
            (\<exists>out. (RecordsGet (TechnitiumZone (cfg r)) h, out) \<in> set (calls ?w')))"
    using Reconcile_loop_attempts [OF _ l] by simp
  show "\<exists>res w'. Reconcile r (Inr ws) w = (Inr res, w') \<and>
      WorkloadsScanned res = int (length ws) \<and>
      HostnamesFound res = (\<Sum>wl\<leftarrow>ws. int (length (parser r (Labels wl)))) \<and>
      HostnamesFiltered res = RecordsCreated res + RecordsExisted res + int (length (Errors res)) \<and>
      length (Errors res) \<le> length ws \<and>
      length (filter failedCall (calls w')) = length (filter failedCall (calls w)) + length (Errors res) \<and>
      (\<forall>e\<in>set (Errors res). \<exists>wl\<in>set ws. prefix (''workload '' @ Name wl @ '': '') e) \<and>
      (\<not> DryRun (cfg r) \<longrightarrow>
         (\<forall>wl\<in>set ws. \<forall>h. find (MatchesFilters (cfg r)) (parser r (Labels wl)) = Some h \<longrightarrow>
            (\<exists>out. (RecordsGet (TechnitiumZone (cfg r)) h, out) \<in> set (calls w'))))"
    using R 1 2 3 4 5 6 7 by blast
qed

lemmas eval_defs2 = eval_defs Reconcile_def processWorkload_def exampleWorkloads_def failingWorld_def
  ReconcileHostnames_def DeleteHostnames_def

lemma example_Reconcile:
  "fst (Reconcile exampleReconciler (Inr exampleWorkloads) failingWorld) =
     Inr \<lparr>WorkloadsScanned = 2, HostnamesFound = 2, HostnamesFiltered = 2, RecordsCreated = 1,
          RecordsExisted = 0,
          Errors = [''workload alpha: ensuring record for a.example.com: creating A record: getting records for a.example.com: connection refused'']\<rparr>"
  "calls (snd (Reconcile exampleReconciler (Inr exampleWorkloads) failingWorld)) =
     [(RecordsGet ''example.com'' ''a.example.com'', RequestFails ''connection refused''),
      (RecordsGet ''example.com'' ''b.example.com'', Succeeds),
      (RecordsAdd ''example.com'' ''b.example.com'' ''10.0.0.1'' 300, Succeeds)]"
  by (simp_all add: eval_defs2)

theorem Reconcile_error_policy_witness:
  "fst (Reconcile exampleReconciler (Inl ''docker unreachable'') emptyWorld) =
      Inl ''listing workloads: docker unreachable'' \<and>
   calls (snd (Reconcile exampleReconciler (Inl ''docker unreachable'') emptyWorld)) = [] \<and>
   (\<exists>res w'. Reconcile exampleReconciler (Inr exampleWorkloads) failingWorld = (Inr res, w') \<and>
      length (Errors res) = 1 \<and> RecordsCreated res = 1 \<and> HostnamesFound res = 2 \<and>
      HostnamesFiltered res = 2 \<and>
      (\<exists>out. (RecordsGet ''example.com'' ''b.example.com'', out) \<in> set (calls w')))"
proof -
  have A: "Reconcile exampleReconciler (Inl ''docker unreachable'') emptyWorld =
      (Inl (''listing workloads: '' @ ''docker unreachable''), slog Info ''starting reconciliation'' emptyWorld)"
    using Reconcile_error_policy [of exampleReconciler "''docker unreachable''" emptyWorld "[]"] by blast
  obtain res w' where R: "Reconcile exampleReconciler (Inr exampleWorkloads) failingWorld = (Inr res, w')"
    and F: "HostnamesFound res = (\<Sum>wl\<leftarrow>exampleWorkloads. int (length (parser exampleReconciler (Labels wl))))"
    and S: "HostnamesFiltered res = RecordsCreated res + RecordsExisted res + int (length (Errors res))"
    and Q: "\<not> DryRun (cfg exampleReconciler) \<longrightarrow>
         (\<forall>wl\<in>set exampleWorkloads. \<forall>h.
            find (MatchesFilters (cfg exampleReconciler)) (parser exampleReconciler (Labels wl)) = Some h \<longrightarrow>
            (\<exists>out. (RecordsGet (TechnitiumZone (cfg exampleReconciler)) h, out) \<in> set (calls w')))"
    using Reconcile_error_policy [of exampleReconciler "''x''" failingWorld exampleWorkloads] by blast
  have res: "res = \<lparr>WorkloadsScanned = 2, HostnamesFound = 2, HostnamesFiltered = 2, RecordsCreated = 1,
          RecordsExisted = 0,
          Errors = [''workload alpha: ensuring record for a.example.com: creating A record: getting records for a.example.com: connection refused'']\<rparr>"
    using example_Reconcile(1) R by simp
  have nd: "\<not> DryRun (cfg exampleReconciler)"
    and z: "TechnitiumZone (cfg exampleReconciler) = ''example.com''"
    by (simp_all add: exampleReconciler_def exampleConfig_def)
  have f: "find (MatchesFilters (cfg exampleReconciler))
             (parser exampleReconciler (Labels (exampleWorkloads ! 1))) = Some ''b.example.com''"
    by (simp add: eval_defs2)
  have m: "exampleWorkloads ! 1 \<in> set exampleWorkloads"
    by (simp add: exampleWorkloads_def)
  have "\<exists>out. (RecordsGet ''example.com'' ''b.example.com'', out) \<in> set (calls w')"
    using Q nd f m z by metis
  then show ?thesis
    using A R res by (simp add: emptyWorld_def)
qed

section \<open>Dry-run mode\<close>

lemma ReconcileHostnames_loop_dry:
  "DryRun (cfg r) \<Longrightarrow> ReconcileHostnames_loop r n hs res w = (res', w') \<Longrightarrow>
     untouched w w' \<and> Errors res' = Errors res \<and>
     RecordsCreated res' = RecordsCreated res + int (length (passing r hs)) \<and>
     HostnamesFiltered res' = HostnamesFiltered res + int (length (passing r hs))"
proof (induction hs arbitrary: res w)
  case Nil
  then show ?case by (simp add: passing_def)
next
  case (Cons h hs)
  obtain e1 res1 w1 where er: "ensureRecord r n h res w = (e1, res1, w1)"
    by (cases "ensureRecord r n h res w")
  have e1: "e1 = None" and u: "untouched w w1"
    using ensureRecord_calls(4,5) [OF er] Cons.prems(1) by simp_all
  have rc: "RecordsCreated res1 = RecordsCreated res + (if MatchesFilters (cfg r) h then 1 else 0)"
    and hf: "HostnamesFiltered res1 = HostnamesFiltered res + (if MatchesFilters (cfg r) h then 1 else 0)"
    and ee: "Errors res1 = Errors res"
    using er Cons.prems(1)
    by (cases "MatchesFilters (cfg r) h"; auto simp: ensureRecord_filtered ensureRecord_dry)+
  from Cons.prems er e1 have "ReconcileHostnames_loop r n hs res1 w1 = (res', w')" by simp
  from Cons.IH [OF Cons.prems(1) this] u rc hf ee show ?case
    by (auto simp: passing_def intro: untouched_trans)
qed

lemma DeleteHostnames_loop_dry:
  "DryRun (cfg r) \<Longrightarrow> DeleteHostnames_loop r n hs deleted w = (deleted', w') \<Longrightarrow>
     untouched w w' \<and> deleted' = deleted + int (length (passing r hs))"
proof (induction hs arbitrary: deleted w)
  case Nil
  then show ?case by (simp add: passing_def)
next
  case (Cons h hs)
  show ?case
  proof (cases "MatchesFilters (cfg r) h")
    case True
    with Cons.prems have "DeleteHostnames_loop r n hs (deleted + 1)
        (slog Info ''DRY RUN: would delete A record'' w) = (deleted', w')" by simp
    from Cons.IH [OF Cons.prems(1) this] True show ?thesis by (simp add: passing_def)
  next
    case False
    with Cons.prems have "DeleteHostnames_loop r n hs deleted w = (deleted', w')" by simp
    from Cons.IH [OF Cons.prems(1) this] False show ?thesis by (simp add: passing_def)
  qed
qed

lemma DeleteHostnames_dry:
  assumes "DryRun (cfg r)"
  shows "fst (DeleteHostnames r n hs w) = (int (length (passing r hs)), None) \<and>
         untouched w (snd (DeleteHostnames r n hs w))"
proof -
  obtain d w1 where l: "DeleteHostnames_loop r n hs 0 (slog Debug ''deleting hostnames'' w) = (d, w1)"
    by (cases "DeleteHostnames_loop r n hs 0 (slog Debug ''deleting hostnames'' w)")
  from DeleteHostnames_loop_dry [OF assms l] show ?thesis
    by (simp add: DeleteHostnames_def l)
qed

text \<open>
  Claim C4. In dry-run mode none of the three entry points sends any request to the
  gateway: after \<open>Reconcile\<close>, \<open>ReconcileHostnames\<close> and \<open>DeleteHostnames\<close> the zone,
  the outcomes to come and the list of requests sent are what they were, so no create
  and no delete was issued. Still \<open>ensureRecord\<close> adds one to \<open>RecordsCreated\<close> for
  every hostname that passes the filter, so a full pass reports as created the number
  of filter-passing hostnames of all workloads (and no error), a partial pass the number
  of filter-passing hostnames given, and \<open>DeleteHostnames\<close> returns the number of
  filter-passing hostnames given as its deleted count.
\<close>

theorem dry_run_frame:
  assumes "DryRun (cfg r)"
  shows "untouched w (snd (Reconcile r listing w)) \<and>
     untouched w (snd (ReconcileHostnames r n hs w)) \<and>
     untouched w (snd (DeleteHostnames r n hs w)) \<and>
     (\<exists>res. fst (Reconcile r (Inr ws) w) = Inr res \<and> Errors res = [] \<and>
         RecordsCreated res = (\<Sum>wl\<leftarrow>ws. int (length (passing r (parser r (Labels wl)))))) \<and>
     RecordsCreated (fst (fst (ReconcileHostnames r n hs w))) = int (length (passing r hs)) \<and>
     fst (fst (DeleteHostnames r n hs w)) = int (length (passing r hs)) \<and>
     (MatchesFilters (cfg r) h \<longrightarrow>
        RecordsCreated (fst (snd (ensureRecord r n h res0 w))) = RecordsCreated res0 + 1 \<and>
        untouched w (snd (snd (ensureRecord r n h res0 w))))"
proof -
  have 1: "untouched w (snd (Reconcile r listing w))"
  proof (cases listing)
    case (Inl err)
    then show ?thesis by (simp add: Reconcile_def)
  next
    case (Inr ws')
    obtain res w1 where l: "Reconcile_loop r ws' (emptyResult\<lparr>WorkloadsScanned := int (length ws')\<rparr>)
        (slog Debug ''scanned workloads'' (slog Info ''starting reconciliation'' w)) = (res, w1)"
      by (cases "Reconcile_loop r ws' (emptyResult\<lparr>WorkloadsScanned := int (length ws')\<rparr>)
        (slog Debug ''scanned workloads'' (slog Info ''starting reconciliation'' w))")
    from Reconcile_loop_dry [OF assms l] show ?thesis
      by (simp add: Reconcile_def Inr l)
  qed
  obtain res w1 where l: "Reconcile_loop r ws (emptyResult\<lparr>WorkloadsScanned := int (length ws)\<rparr>)
        (slog Debug ''scanned workloads'' (slog Info ''starting reconciliation'' w)) = (res, w1)"
    by (cases "Reconcile_loop r ws (emptyResult\<lparr>WorkloadsScanned := int (length ws)\<rparr>)
        (slog Debug ''scanned workloads'' (slog Info ''starting reconciliation'' w))")
  have 4: "\<exists>res. fst (Reconcile r (Inr ws) w) = Inr res \<and> Errors res = [] \<and>
         RecordsCreated res = (\<Sum>wl\<leftarrow>ws. int (length (passing r (parser r (Labels wl)))))"
    using Reconcile_loop_dry [OF assms l] by (simp add: Reconcile_def l)
  obtain res2 w2 where l2: "ReconcileHostnames_loop r n hs (emptyResult\<lparr>HostnamesFound := int (length hs)\<rparr>)
             (slog Debug ''reconciling specific hostnames'' w) = (res2, w2)"
    by (cases "ReconcileHostnames_loop r n hs (emptyResult\<lparr>HostnamesFound := int (length hs)\<rparr>)
             (slog Debug ''reconciling specific hostnames'' w)")
  have 2: "untouched w (snd (ReconcileHostnames r n hs w))"
    and 5: "RecordsCreated (fst (fst (ReconcileHostnames r n hs w))) = int (length (passing r hs))"
    using ReconcileHostnames_loop_dry [OF assms l2]
    by (simp_all add: ReconcileHostnames_def l2)
  have 3: "untouched w (snd (DeleteHostnames r n hs w))"
    and 6: "fst (fst (DeleteHostnames r n hs w)) = int (length (passing r hs))"
    using DeleteHostnames_dry [OF assms, of n hs w] by simp_all
  have 7: "MatchesFilters (cfg r) h \<longrightarrow>
        RecordsCreated (fst (snd (ensureRecord r n h res0 w))) = RecordsCreated res0 + 1 \<and>
        untouched w (snd (snd (ensureRecord r n h res0 w)))"
    using assms by (simp add: ensureRecord_dry)
  from 1 2 3 4 5 6 7 show ?thesis by blast
qed

theorem dry_run_frame_witness:
  "DryRun (cfg dryRunReconciler) \<and>
   calls (snd (Reconcile dryRunReconciler (Inr exampleWorkloads) failingWorld)) = [] \<and>
   zones (snd (Reconcile dryRunReconciler (Inr exampleWorkloads) failingWorld)) = zones failingWorld \<and>
   (\<exists>res. fst (Reconcile dryRunReconciler (Inr exampleWorkloads) failingWorld) = Inr res \<and>
          RecordsCreated res = 2) \<and>
   RecordsCreated (fst (fst (ReconcileHostnames dryRunReconciler ''web''
       [''app.example.com'', ''test.example.com'', ''app.example.com''] failingWorld))) = 2 \<and>
   fst (fst (DeleteHostnames dryRunReconciler ''web''
       [''app.example.com'', ''test.example.com'', ''app.example.com''] failingWorld)) = 2 \<and>
   calls (snd (DeleteHostnames dryRunReconciler ''web''
       [''app.example.com'', ''test.example.com'', ''app.example.com''] failingWorld)) = []"
proof -
  have d: "DryRun (cfg dryRunReconciler)"
    by (simp add: dryRunReconciler_def)
  have p: "passing dryRunReconciler [''app.example.com'', ''test.example.com'', ''app.example.com'']
             = [''app.example.com'', ''app.example.com'']"
    "(\<Sum>wl\<leftarrow>exampleWorkloads. int (length (passing dryRunReconciler (parser dryRunReconciler (Labels wl))))) = 2"
    by (simp_all add: passing_def eval_defs2)
  have c: "calls failingWorld = []"
    by (simp add: failingWorld_def emptyWorld_def)
  from dry_run_frame [OF d, of failingWorld "Inr exampleWorkloads" "''web''"
      "[''app.example.com'', ''test.example.com'', ''app.example.com'']" exampleWorkloads
      "''app.example.com''" emptyResult]
  show ?thesis
    using d p c by (auto simp: untouched_def)
qed

text \<open>
  Claim C10. In dry-run mode \<open>DeleteHostnames\<close> sends no request at all, so it makes
  no existence check, and the count it returns is the number of entries of the input
  list that pass the filter, duplicates included, whether or not a record exists for
  them. The count can therefore exceed the number of records that exist: on a server
  that holds no record at all, a list naming one hostname twice yields the count 2.
\<close>

theorem DeleteHostnames_dry_run_count:
  "(DryRun (cfg r) \<longrightarrow>
      fst (DeleteHostnames r n hs w) = (int (length (filter (MatchesFilters (cfg r)) hs)), None) \<and>
      untouched w (snd (DeleteHostnames r n hs w))) \<and>
   (\<exists>r' w'. DryRun (cfg r') \<and> (\<forall>k. zones w' k = []) \<and>
      fst (fst (DeleteHostnames r' n [''app.example.com'', ''app.example.com''] w')) = 2)"
proof
  show "DryRun (cfg r) \<longrightarrow>
      fst (DeleteHostnames r n hs w) = (int (length (filter (MatchesFilters (cfg r)) hs)), None) \<and>
      untouched w (snd (DeleteHostnames r n hs w))"
    using DeleteHostnames_dry [of r n hs w] by (simp add: passing_def)
next
  have "DryRun (cfg dryRunReconciler)" by (simp add: dryRunReconciler_def)
  moreover have "\<forall>k. zones emptyWorld k = []" by (simp add: emptyWorld_def)
  moreover have "fst (fst (DeleteHostnames dryRunReconciler n [''app.example.com'', ''app.example.com''] emptyWorld)) = 2"
    by (simp add: eval_defs2)
  ultimately show "\<exists>r' w'. DryRun (cfg r') \<and> (\<forall>k. zones w' k = []) \<and>
      fst (fst (DeleteHostnames r' n [''app.example.com'', ''app.example.com''] w')) = 2"
    by blast
qed

theorem DeleteHostnames_dry_run_count_witness:
  "DryRun (cfg dryRunReconciler) \<and>
   fst (DeleteHostnames dryRunReconciler ''web''
          [''app.example.com'', ''test.example.com'', ''api.example.com'', ''app.example.com'']
          (worldWith (exampleRecord False))) = (3, None) \<and>
   calls (snd (DeleteHostnames dryRunReconciler ''web''
          [''app.example.com'', ''test.example.com'', ''api.example.com'', ''app.example.com'']
          (worldWith (exampleRecord False)))) = [] \<and>
   length (zones (worldWith (exampleRecord False)) (''example.com'', ''app.example.com'')) = 1 \<and>
   zones (worldWith (exampleRecord False)) (''example.com'', ''api.example.com'') = []"
proof -
  have d: "DryRun (cfg dryRunReconciler)" by (simp add: dryRunReconciler_def)
  have f: "filter (MatchesFilters (cfg dryRunReconciler))
      [''app.example.com'', ''test.example.com'', ''api.example.com'', ''app.example.com''] =
      [''app.example.com'', ''api.example.com'', ''app.example.com'']"
    by (simp add: eval_defs2)
  from DeleteHostnames_dry_run_count [of dryRunReconciler "''web''"
      "[''app.example.com'', ''test.example.com'', ''api.example.com'', ''app.example.com'']"
      "worldWith (exampleRecord False)"]
  show ?thesis using d f
    by (simp add: untouched_def worldWith_def emptyWorld_def)
qed

section \<open>Deleting hostnames\<close>



lemma errorLines_slog [simp]:
  "errorLines (slog lv m w) = errorLines w + (if lv = Error then 1 else 0)"
  by (simp add: errorLines_def)












section \<open>The watcher\<close>

lemma handleEvent_untouched: "handleEvent ev w = Some w1 \<Longrightarrow> untouched w w1"
  by (auto simp: handleEvent_def handleServiceEvent_def handleContainerEvent_def Let_def
        split: if_splits option.splits)

lemma handleEvent_None:
  "handleEvent ev w = None \<longleftrightarrow>
     (EvType ev = ''service'' \<or> EvType ev = ''container'') \<and> actorName ev = None"
  by (auto simp: handleEvent_def handleServiceEvent_def handleContainerEvent_def Let_def
        split: if_splits option.splits)

lemma actorName_None:
  "actorName ev = None \<longleftrightarrow>
     (Attributes (Actor ev) ''name'' = None \<or> Attributes (Actor ev) ''name'' = Some []) \<and>
     length (ActorID (Actor ev)) < 12"
  by (auto simp: actorName_def Let_def split: option.splits if_splits)

lemma Watch_run_append:
  "Watch_run wt (xs @ ys) st = Watch_run wt ys (Watch_run wt xs st)"
  by (simp add: Watch_run_def)

lemma Watch_run_Nil [simp]: "Watch_run wt [] st = st"
  by (simp add: Watch_run_def)

lemma Watch_run_Cons [simp]: "Watch_run wt (i # is) st = Watch_run wt is (Watch_step wt i st)"
  by (simp add: Watch_run_def)

text \<open>Events that arrive while a reconciliation is pending change nothing but the world's log.\<close>

lemma Watch_run_events_pending:
  "loop s = Running \<Longrightarrow> pendingReconcile s \<Longrightarrow> handleEvents (map snd evs) w = Some w1 \<Longrightarrow>
   Watch_run wt (map (\<lambda>(t, e). EventCh t e) evs) (s, w) = (s, w1)"
proof (induction evs arbitrary: w)
  case Nil
  then show ?case by simp
next
  case (Cons te evs)
  obtain t e where te: "te = (t, e)" by (cases te)
  from Cons.prems(3) te obtain wa where h: "handleEvent e w = Some wa"
    and r: "handleEvents (map snd evs) wa = Some w1"
    by (auto split: option.splits)
  have "Watch_step wt (EventCh t e) (s, w) = (s, wa)"
    using Cons.prems(1,2) h by simp
  then show ?case
    using Cons.IH [OF Cons.prems(1,2) r] te by simp
qed

lemma Watch_run_events_idle:
  assumes "loop s = Running" and "\<not> pendingReconcile s" and "evs \<noteq> []"
    and "handleEvents (map snd evs) w = Some w1"
  shows "Watch_run wt (map (\<lambda>(t, e). EventCh t e) evs) (s, w) =
     (s\<lparr>pendingReconcile := True,
        timers := timers s @ [\<lparr>deadline = fst (hd evs) + debounceInterval wt, status = Armed\<rparr>]\<rparr>, w1)"
proof -
  obtain t e evs' where evs: "evs = (t, e) # evs'"
    using assms(3) by (cases evs) auto
  from assms(4) evs obtain wa where h: "handleEvent e w = Some wa"
    and r: "handleEvents (map snd evs') wa = Some w1"
    by (auto split: option.splits)
  let ?s1 = "s\<lparr>pendingReconcile := True,
        timers := timers s @ [\<lparr>deadline = t + debounceInterval wt, status = Armed\<rparr>]\<rparr>"
  have 1: "Watch_step wt (EventCh t e) (s, w) = (?s1, wa)"
    using assms(1,2) h by simp
  have 2: "Watch_run wt (map (\<lambda>(t, e). EventCh t e) evs') (?s1, wa) = (?s1, w1)"
    by (rule Watch_run_events_pending) (use assms(1) r in simp_all)
  show ?thesis using 1 2 evs by simp
qed

lemma Watch_run_events_fired:
  "loop s = Running \<Longrightarrow> pendingReconcile s \<Longrightarrow> handleEvents (map snd evs) w = Some w1 \<Longrightarrow>
   Watch_run wt (map (\<lambda>(t, e). EventCh t e) evs @ rest) (s, w) = Watch_run wt rest (s, w1)"
  by (simp add: Watch_run_append Watch_run_events_pending)


lemma filter_update_count:
  "k < length xs \<Longrightarrow>
   length (filter P (xs[k := y])) + (if P (xs ! k) then 1 else 0) =
   length (filter P xs) + (if P y then 1 else 0)"
proof (induction xs arbitrary: k)
  case Nil
  then show ?case by simp
next
  case (Cons x xs)
  show ?case
  proof (cases k)
    case 0
    then show ?thesis by simp
  next
    case (Suc j)
    with Cons.prems have "j < length xs" by simp
    from Cons.IH [OF this] Suc show ?thesis by simp
  qed
qed

lemma stop_last_count:
  "xs \<noteq> [] \<Longrightarrow> length (filter live (butlast xs @ [stopTimer (last xs)])) \<le> length (filter live xs)"
proof -
  assume "xs \<noteq> []"
  then have "xs = butlast xs @ [last xs]" by simp
  then have "filter live xs = filter live (butlast xs) @ filter live [last xs]"
    by (metis filter_append)
  then have "length (filter live xs) = length (filter live (butlast xs)) + (if live (last xs) then 1 else 0)"
    by simp
  moreover have "live (stopTimer (last xs)) \<Longrightarrow> live (last xs)"
    by (auto simp: live_def stopTimer_def split: if_splits)
  ultimately show ?thesis by auto
qed

lemma Watch_step_live:
  assumes "length (filter live (timers s)) \<le> (if pendingReconcile s then 1 else 0)"
  shows "length (filter live (timers (fst (Watch_step wt i (s, w))))) \<le>
         (if pendingReconcile (fst (Watch_step wt i (s, w))) then 1 else 0)"
proof (cases i)
  case CtxDone
  show ?thesis
  proof (cases "loop s = Running \<and> timers s \<noteq> []")
    case True
    then have "length (filter live (butlast (timers s) @ [stopTimer (last (timers s))])) \<le>
               length (filter live (timers s))"
      by (intro stop_last_count) simp
    with assms have "length (filter live (butlast (timers s) @ [stopTimer (last (timers s))])) \<le>
               (if pendingReconcile s then 1 else 0)"
      by (rule_tac order_trans)
    then show ?thesis using True CtxDone by simp
  next
    case False
    then show ?thesis using assms CtxDone by auto
  qed
next
  case (ErrCh err)
  then show ?thesis using assms by (auto split: option.splits)
next
  case (EventCh t e)
  then show ?thesis using assms by (auto simp: live_def split: option.splits if_splits)
next
  case (TimerFires k)
  show ?thesis
  proof (cases "loop s \<noteq> Panicked \<and> k < length (timers s) \<and> status (timers s ! k) = Armed")
    case True
    then have "length (filter live ((timers s)[k := (timers s ! k)\<lparr>status := Fired\<rparr>])) =
               length (filter live (timers s))"
      using filter_update_count [of k "timers s" live "(timers s ! k)\<lparr>status := Fired\<rparr>"]
      by (simp add: live_def)
    then show ?thesis using assms True TimerFires by simp
  next
    case False
    then show ?thesis using assms TimerFires by auto
  qed
next
  case (CallbackReturns k listing)
  show ?thesis
  proof (cases "loop s \<noteq> Panicked \<and> k < length (timers s) \<and> status (timers s ! k) = Fired")
    case True
    then have "Suc (length (filter live ((timers s)[k := (timers s ! k)\<lparr>status := Finished\<rparr>]))) =
               length (filter live (timers s))"
      using filter_update_count [of k "timers s" live "(timers s ! k)\<lparr>status := Finished\<rparr>"]
      by (simp add: live_def)
    moreover have "length (filter live (timers s)) \<le> 1"
      using assms by (simp split: if_splits)
    ultimately have "length (filter live ((timers s)[k := (timers s ! k)\<lparr>status := Finished\<rparr>])) = 0"
      by linarith
    then show ?thesis using True CallbackReturns
      by (auto split: prod.splits sum.splits)
  next
    case False
    then show ?thesis using assms CallbackReturns by auto
  qed
qed

lemma Watch_run_live:
  "length (filter live (timers (fst st))) \<le> (if pendingReconcile (fst st) then 1 else 0) \<Longrightarrow>
   length (filter live (timers (fst (Watch_run wt inputs st)))) \<le>
     (if pendingReconcile (fst (Watch_run wt inputs st)) then 1 else 0)"
proof (induction inputs arbitrary: st)
  case Nil
  then show ?case by simp
next
  case (Cons i inputs)
  obtain s w where st: "st = (s, w)" by (cases st)
  have "length (filter live (timers (fst (Watch_step wt i st)))) \<le>
        (if pendingReconcile (fst (Watch_step wt i st)) then 1 else 0)"
    unfolding st by (rule Watch_step_live) (use Cons.prems st in simp)
  from Cons.IH [OF this] show ?case by simp
qed

text \<open>
  Claim C5. Let the watcher be idle (loop running, no reconciliation pending) and let
  one or more events arrive whose handlers return. After them exactly one timer has been
  added; it is armed, with the deadline of the first event's arrival plus the debounce
  interval, and a reconciliation is pending. When that timer then fires, further events
  arrive, and the callback's \<open>Reconcile\<close> returns, the watcher is back in the state it
  started from, with that one timer finished, and the world is the result of exactly
  one \<open>Reconcile\<close> call, whatever the call returned (an error or a result). In any
  state in which a reconciliation is pending, an event leaves the timers as they are
  (none is added, none is rearmed) and the reconciliation pending. In every state the
  watcher reaches from its start, at most one timer is armed or running, and none when
  no reconciliation is pending. A handler fails to return only by the slice panic, on
  a service or container event without a name whose actor identifier is shorter than
  12 bytes.
\<close>

theorem Watch_coalesces:
  "(loop s = Running \<and> \<not> pendingReconcile s \<and> evs \<noteq> [] \<and>
    handleEvents (map snd evs) w = Some w1 \<and>
    handleEvents (map snd evs')
      (slog Debug ''debounce timer fired, triggering full reconciliation'' w1) = Some w2 \<longrightarrow>
      Watch_run wt (map (\<lambda>(t, e). EventCh t e) evs) (s, w) =
        (s\<lparr>pendingReconcile := True,
           timers := timers s @ [\<lparr>deadline = fst (hd evs) + debounceInterval wt, status = Armed\<rparr>]\<rparr>,
         w1) \<and>
      Watch_run wt
        (map (\<lambda>(t, e). EventCh t e) evs @ [TimerFires (length (timers s))] @
         map (\<lambda>(t, e). EventCh t e) evs' @ [CallbackReturns (length (timers s)) listing]) (s, w) =
        (s\<lparr>timers := timers s @ [\<lparr>deadline = fst (hd evs) + debounceInterval wt, status = Finished\<rparr>]\<rparr>,
         case Reconcile (reconciler wt) listing w2 of
           (Inl err, w3) \<Rightarrow> slog Error ''reconciliation failed'' w3
         | (Inr result, w3) \<Rightarrow> slog Info ''reconciliation triggered by events'' w3)) \<and>
   (pendingReconcile s' \<longrightarrow>
      timers (fst (Watch_step wt (EventCh t e) (s', w'))) = timers s' \<and>
      pendingReconcile (fst (Watch_step wt (EventCh t e) (s', w')))) \<and>
   length (filter live (timers (fst (Watch_run wt inputs (Watch_init, w0))))) \<le>
     (if pendingReconcile (fst (Watch_run wt inputs (Watch_init, w0))) then 1 else 0) \<and>
   (handleEvent e w' = None \<longleftrightarrow>
      (EvType e = ''service'' \<or> EvType e = ''container'') \<and>
      (Attributes (Actor e) ''name'' = None \<or> Attributes (Actor e) ''name'' = Some []) \<and>
      length (ActorID (Actor e)) < 12)"
proof (intro conjI impI)
  assume a: "loop s = Running \<and> \<not> pendingReconcile s \<and> evs \<noteq> [] \<and>
    handleEvents (map snd evs) w = Some w1 \<and>
    handleEvents (map snd evs')
      (slog Debug ''debounce timer fired, triggering full reconciliation'' w1) = Some w2"
  let ?k = "length (timers s)"
  let ?d = "fst (hd evs) + debounceInterval wt"
  let ?s1 = "s\<lparr>pendingReconcile := True, timers := timers s @ [\<lparr>deadline = ?d, status = Armed\<rparr>]\<rparr>"
  let ?s2 = "s\<lparr>pendingReconcile := True, timers := timers s @ [\<lparr>deadline = ?d, status = Fired\<rparr>]\<rparr>"
  let ?wf = "slog Debug ''debounce timer fired, triggering full reconciliation'' w1"
  show 1: "Watch_run wt (map (\<lambda>(t, e). EventCh t e) evs) (s, w) = (?s1, w1)"
    using a by (intro Watch_run_events_idle) simp_all
  have 2: "Watch_step wt (TimerFires ?k) (?s1, w1) = (?s2, ?wf)"
    using a by simp
  have 3: "Watch_run wt (map (\<lambda>(t, e). EventCh t e) evs') (?s2, ?wf) = (?s2, w2)"
    using a by (intro Watch_run_events_pending) simp_all
  have 4: "Watch_step wt (CallbackReturns ?k listing) (?s2, w2) =
        (s\<lparr>timers := timers s @ [\<lparr>deadline = ?d, status = Finished\<rparr>]\<rparr>,
         case Reconcile (reconciler wt) listing w2 of
           (Inl err, w3) \<Rightarrow> slog Error ''reconciliation failed'' w3
         | (Inr result, w3) \<Rightarrow> slog Info ''reconciliation triggered by events'' w3)"
    using a by (auto split: prod.splits sum.splits)
  show "Watch_run wt
        (map (\<lambda>(t, e). EventCh t e) evs @ [TimerFires ?k] @
         map (\<lambda>(t, e). EventCh t e) evs' @ [CallbackReturns ?k listing]) (s, w) =
        (s\<lparr>timers := timers s @ [\<lparr>deadline = ?d, status = Finished\<rparr>]\<rparr>,
         case Reconcile (reconciler wt) listing w2 of
           (Inl err, w3) \<Rightarrow> slog Error ''reconciliation failed'' w3
         | (Inr result, w3) \<Rightarrow> slog Info ''reconciliation triggered by events'' w3)"
    unfolding Watch_run_append 1 using 2 3 4 by simp
next
  assume "pendingReconcile s'"
  then show "timers (fst (Watch_step wt (EventCh t e) (s', w'))) = timers s'"
    and "pendingReconcile (fst (Watch_step wt (EventCh t e) (s', w')))"
    by (auto split: option.splits)
next
  show "length (filter live (timers (fst (Watch_run wt inputs (Watch_init, w0))))) \<le>
     (if pendingReconcile (fst (Watch_run wt inputs (Watch_init, w0))) then 1 else 0)"
    by (rule Watch_run_live) (simp add: Watch_init_def)
next
  show "handleEvent e w' = None \<longleftrightarrow>
      (EvType e = ''service'' \<or> EvType e = ''container'') \<and>
      (Attributes (Actor e) ''name'' = None \<or> Attributes (Actor e) ''name'' = Some []) \<and>
      length (ActorID (Actor e)) < 12"
    by (simp add: handleEvent_None actorName_None)
qed

lemmas watch_defs = handleEvent_def handleServiceEvent_def handleContainerEvent_def actorName_def
  containerEvent_def serviceEvent_def exampleWatcher_def Watch_init_def stopTimer_def

theorem Watch_coalesces_witness:
  "fst (Watch_run exampleWatcher
         [EventCh 10 (containerEvent ''start''), EventCh 11 (containerEvent ''die''),
          EventCh 12 (serviceEvent ''update''), TimerFires 0,
          EventCh 16 (containerEvent ''start''),
          CallbackReturns 0 (Inl ''docker unreachable'')]
         (Watch_init, emptyWorld)) =
     \<lparr>loop = Running, pendingReconcile = False, timers = [\<lparr>deadline = 15, status = Finished\<rparr>]\<rparr> \<and>
   fst (Watch_run exampleWatcher
         [EventCh 10 (containerEvent ''start''), EventCh 11 (containerEvent ''die''),
          EventCh 12 (serviceEvent ''update'')]
         (Watch_init, emptyWorld)) =
     \<lparr>loop = Running, pendingReconcile = True, timers = [\<lparr>deadline = 15, status = Armed\<rparr>]\<rparr>"
proof -
  let ?evs = "[(10, containerEvent ''start''), (11, containerEvent ''die''), (12, serviceEvent ''update'')]"
  let ?evs' = "[(16::int, containerEvent ''start'')]"
  obtain w1 where 1: "handleEvents (map snd ?evs) emptyWorld = Some w1"
    by (simp add: watch_defs)
  obtain w2 where 2: "handleEvents (map snd ?evs')
      (slog Debug ''debounce timer fired, triggering full reconciliation'' w1) = Some w2"
    by (simp add: watch_defs)
  have 3: "loop Watch_init = Running" "\<not> pendingReconcile Watch_init" "timers Watch_init = []"
    "debounceInterval exampleWatcher = 5"
    by (simp_all add: watch_defs)
  from Watch_coalesces [of Watch_init ?evs emptyWorld w1 ?evs' w2 exampleWatcher
      "Inl ''docker unreachable''"] 1 2 3
  show ?thesis by (simp add: Watch_init_def del: Watch_run_Cons Watch_run_Nil)
qed


lemma keeps_refl [simp]: "keeps w w"
  by (simp add: keeps_def)

lemma keeps_slog [simp]: "keeps w (slog lv m w') \<longleftrightarrow> keeps w w'"
  by (simp add: keeps_def)

lemma keeps_slog_left [simp]: "keeps (slog lv m w) w' \<longleftrightarrow> keeps w w'"
  by (simp add: keeps_def)

lemma keeps_trans: "keeps w w1 \<Longrightarrow> keeps w1 w2 \<Longrightarrow> keeps w w2"
  unfolding keeps_def by (meson subset_trans)

lemma untouched_keeps: "untouched w w' \<Longrightarrow> keeps w w'"
  by (simp add: untouched_def keeps_def)

lemma keeps_serve_add: "zones w' = serve (RecordsAdd z h ip ttl) (zones w) \<Longrightarrow> keeps w w'"
  by (auto simp: keeps_def serve_def)

lemma ensureRecord_keeps:
  assumes "ensureRecord r n h res w = (e, res', w')"
  shows "keeps w w'"
proof (cases "DryRun (cfg r) \<or> \<not> MatchesFilters (cfg r) h")
  case True
  then show ?thesis using ensureRecord_calls(4) [OF assms] by (simp add: untouched_keeps)
next
  case False
  then have l: "MatchesFilters (cfg r) h" "\<not> DryRun (cfg r)" by simp_all
  show ?thesis
    by (rule ensureRecord_live [OF l, of n res w])
       (use assms in \<open>auto simp: keeps_def serve_def split: if_splits\<close>)
qed

lemma processWorkload_loop_keeps:
  "processWorkload_loop r n hosts res w = (e, res', w') \<Longrightarrow> keeps w w'"
proof (induction hosts arbitrary: res w)
  case Nil
  then show ?case by simp
next
  case (Cons h hosts)
  obtain e1 res1 w1 where er: "ensureRecord r n h res w = (e1, res1, w1)"
    by (cases "ensureRecord r n h res w")
  note K = ensureRecord_keeps [OF er]
  show ?case
  proof (cases e1)
    case None
    with Cons.prems er have "processWorkload_loop r n hosts res1 w1 = (e, res', w')" by simp
    from K Cons.IH [OF this] show ?thesis by (rule keeps_trans)
  next
    case (Some err)
    with Cons.prems er have "w' = w1" by simp
    with K show ?thesis by simp
  qed
qed

lemma processWorkload_keeps:
  assumes "processWorkload r wl res w = (e, res', w')"
  shows "keeps w w'"
proof (cases "parser r (Labels wl) = []")
  case True
  then show ?thesis using assms by (auto simp: processWorkload_def)
next
  case False
  then have "processWorkload_loop r (Name wl) (parser r (Labels wl))
             (res\<lparr>HostnamesFound := HostnamesFound res + int (length (parser r (Labels wl)))\<rparr>)
             (slog Debug ''found traefik hosts'' w) = (e, res', w')"
    using assms by (simp add: processWorkload_def Let_def)
  from processWorkload_loop_keeps [OF this] show ?thesis by simp
qed

lemma Reconcile_loop_keeps:
  "Reconcile_loop r ws res w = (res', w') \<Longrightarrow> keeps w w'"
proof (induction ws arbitrary: res w)
  case Nil
  then show ?case by simp
next
  case (Cons wl ws)
  obtain e1 res1 w1 where pw: "processWorkload r wl res w = (e1, res1, w1)"
    by (cases "processWorkload r wl res w")
  note K = processWorkload_keeps [OF pw]
  obtain res2 w2 where l: "Reconcile_loop r ws res2 w2 = (res', w')" and k: "keeps w1 w2"
    using Cons.prems pw by (cases e1) auto
  from Cons.IH [OF l] have "keeps w2 w'" .
  with K k show ?case by (blast intro: keeps_trans)
qed

lemma Reconcile_no_delete:
  "filter isDelete (calls (snd (Reconcile r listing w))) = filter isDelete (calls w) \<and>
   keeps w (snd (Reconcile r listing w))"
proof (cases listing)
  case (Inl err)
  then show ?thesis by (simp add: Reconcile_def)
next
  case (Inr ws)
  obtain res w1 where l: "Reconcile_loop r ws (emptyResult\<lparr>WorkloadsScanned := int (length ws)\<rparr>)
        (slog Debug ''scanned workloads'' (slog Info ''starting reconciliation'' w)) = (res, w1)"
    by (cases "Reconcile_loop r ws (emptyResult\<lparr>WorkloadsScanned := int (length ws)\<rparr>)
        (slog Debug ''scanned workloads'' (slog Info ''starting reconciliation'' w))")
  from Reconcile_loop_inv [OF l] Reconcile_loop_keeps [OF l] show ?thesis
    by (simp add: Reconcile_def Inr l)
qed

lemma Watch_step_no_delete:
  "filter isDelete (calls (snd (Watch_step wt i (s, w)))) = filter isDelete (calls w) \<and>
   keeps w (snd (Watch_step wt i (s, w)))"
proof (cases i)
  case CtxDone
  then show ?thesis by simp
next
  case (ErrCh err)
  then show ?thesis by (cases err) simp_all
next
  case (EventCh t e)
  show ?thesis
  proof (cases "handleEvent e w")
    case None
    then show ?thesis using EventCh by simp
  next
    case (Some w1)
    from handleEvent_untouched [OF Some] have "calls w1 = calls w" "keeps w w1"
      by (simp_all add: untouched_def keeps_def)
    then show ?thesis using EventCh Some by simp
  qed
next
  case (TimerFires k)
  then show ?thesis by simp
next
  case (CallbackReturns k listing)
  obtain a w1 where R: "Reconcile (reconciler wt) listing w = (a, w1)"
    by (cases "Reconcile (reconciler wt) listing w")
  from Reconcile_no_delete [of "reconciler wt" listing w] R
  have "filter isDelete (calls w1) = filter isDelete (calls w)" "keeps w w1" by simp_all
  then show ?thesis using CallbackReturns R by (cases a) simp_all
qed

lemma Watch_run_no_delete:
  "filter isDelete (calls (snd (Watch_run wt inputs st))) = filter isDelete (calls (snd st)) \<and>
   keeps (snd st) (snd (Watch_run wt inputs st))"
proof (induction inputs arbitrary: st)
  case Nil
  then show ?case by simp
next
  case (Cons i inputs)
  obtain s w where st: "st = (s, w)" by (cases st)
  have 1: "filter isDelete (calls (snd (Watch_step wt i st))) = filter isDelete (calls (snd st))"
    and 2: "keeps (snd st) (snd (Watch_step wt i st))"
    using Watch_step_no_delete [of wt i s w] st by simp_all
  have 3: "filter isDelete (calls (snd (Watch_run wt inputs (Watch_step wt i st)))) =
           filter isDelete (calls (snd (Watch_step wt i st)))"
    and 4: "keeps (snd (Watch_step wt i st)) (snd (Watch_run wt inputs (Watch_step wt i st)))"
    using Cons.IH [of "Watch_step wt i st"] by simp_all
  show ?case using 1 3 keeps_trans [OF 2 4] by simp
qed

text \<open>
  Claim C6. No execution of the watcher sends a delete to the gateway: for every
  sequence of inputs (events of any type and action, among them service remove and
  container die and destroy, timer firings, returning reconciliations, errors and
  cancellation), from every state and world, the delete requests in the list of
  requests sent are those that were there before, and every record the server held it
  still holds. An event handler that returns leaves the gateway untouched (it only
  writes log lines), and the full reconciliation, the only action the events trigger,
  sends no delete.
\<close>

theorem lifecycle_events_never_delete:
  "filter isDelete (calls (snd (Watch_run wt inputs (s, w)))) = filter isDelete (calls w) \<and>
   keeps w (snd (Watch_run wt inputs (s, w))) \<and>
   (handleEvent ev w = Some w1 \<longrightarrow> untouched w w1) \<and>
   filter isDelete (calls (snd (Reconcile r listing w))) = filter isDelete (calls w)"
  using Watch_run_no_delete [of wt inputs "(s, w)"] handleEvent_untouched [of ev w w1]
    Reconcile_no_delete [of r listing w]
  by simp

lemma example_watch:
  "calls (snd (Watch_run exampleWatcher
         [EventCh 10 (containerEvent ''die''), EventCh 11 (serviceEvent ''remove''),
          EventCh 12 (containerEvent ''destroy''), TimerFires 0,
          CallbackReturns 0 (Inr exampleWorkloads)]
         (Watch_init, worldWith (exampleRecord False)))) =
     [(RecordsGet ''example.com'' ''a.example.com'', Succeeds),
      (RecordsAdd ''example.com'' ''a.example.com'' ''10.0.0.1'' 300, Succeeds),
      (RecordsGet ''example.com'' ''b.example.com'', Succeeds),
      (RecordsAdd ''example.com'' ''b.example.com'' ''10.0.0.1'' 300, Succeeds)]"
  "zones (snd (Watch_run exampleWatcher
         [EventCh 10 (containerEvent ''die''), EventCh 11 (serviceEvent ''remove''),
          EventCh 12 (containerEvent ''destroy''), TimerFires 0,
          CallbackReturns 0 (Inr exampleWorkloads)]
         (Watch_init, worldWith (exampleRecord False)))) (''example.com'', ''app.example.com'') =
     [exampleRecord False]"
  by (simp_all add: watch_defs eval_defs2)

theorem lifecycle_events_never_delete_witness:
  "filter isDelete (calls (snd (Watch_run exampleWatcher
         [EventCh 10 (containerEvent ''die''), EventCh 11 (serviceEvent ''remove''),
          EventCh 12 (containerEvent ''destroy''), TimerFires 0,
          CallbackReturns 0 (Inr exampleWorkloads)]
         (Watch_init, worldWith (exampleRecord False))))) = [] \<and>
   exampleRecord False \<in> set (zones (snd (Watch_run exampleWatcher
         [EventCh 10 (containerEvent ''die''), EventCh 11 (serviceEvent ''remove''),
          EventCh 12 (containerEvent ''destroy''), TimerFires 0,
          CallbackReturns 0 (Inr exampleWorkloads)]
         (Watch_init, worldWith (exampleRecord False)))) (''example.com'', ''app.example.com'')) \<and>
   (\<exists>w1. handleEvent (serviceEvent ''remove'') (worldWith (exampleRecord False)) = Some w1 \<and>
         untouched (worldWith (exampleRecord False)) w1) \<and>
   length (calls (snd (Watch_run exampleWatcher
         [EventCh 10 (containerEvent ''die''), EventCh 11 (serviceEvent ''remove''),
          EventCh 12 (containerEvent ''destroy''), TimerFires 0,
          CallbackReturns 0 (Inr exampleWorkloads)]
         (Watch_init, worldWith (exampleRecord False))))) = 4"
proof -
  let ?inputs = "[EventCh 10 (containerEvent ''die''), EventCh 11 (serviceEvent ''remove''),
          EventCh 12 (containerEvent ''destroy''), TimerFires 0,
          CallbackReturns 0 (Inr exampleWorkloads)]"
  let ?w = "worldWith (exampleRecord False)"
  obtain w1 where h: "handleEvent (serviceEvent ''remove'') ?w = Some w1"
    by (simp add: watch_defs)
  have c: "calls ?w = []" "exampleRecord False \<in> set (zones ?w (''example.com'', ''app.example.com''))"
    by (simp_all add: worldWith_def emptyWorld_def)
  let ?W = "snd (Watch_run exampleWatcher ?inputs (Watch_init, ?w))"
  from lifecycle_events_never_delete [of exampleWatcher ?inputs Watch_init ?w "serviceEvent ''remove''" w1
      exampleReconciler "Inr exampleWorkloads"]
  have A: "filter isDelete (calls ?W) = []" and K: "keeps ?w ?W" and U: "untouched ?w w1"
    using h c by (simp_all del: Watch_run_Cons Watch_run_Nil)
  have B: "exampleRecord False \<in> set (zones ?W (''example.com'', ''app.example.com''))"
    using K c(2) unfolding keeps_def by blast
  have C: "\<exists>w1. handleEvent (serviceEvent ''remove'') ?w = Some w1 \<and> untouched ?w w1"
    using h U by blast
  have D: "length (calls ?W) = 4"
    by (simp only: example_watch(1)) simp
  from A B C D show ?thesis by blast
qed

end
